theory Spec2Isabelle
  imports Complex_Main "HOL-Library.AList"
begin

section \<open>Trip expense tracker: the ledger of class TripData\<close>

text \<open>
  The development embeds the data-management class \<open>TripData\<close> of \<open>main.py\<close>: the
  participant roster, the expense list, balance calculation and settlement generation.
  Python lists are HOL lists, the dictionary of balances is an association list in
  insertion order (the order \<open>balances.items()\<close> iterates in), and every exception a
  method can raise is a value of type \<open>error\<close>.

  Amounts and balances are Python floats, that is IEEE 754 binary64 numbers. A float
  is a value of type \<open>double\<close>: a finite number, an infinity or a NaN. Every arithmetic
  operation computes the exact result and rounds it to the nearest binary64 number,
  ties to even, as the hardware does. The two zeros \<open>0.0\<close> and \<open>-0.0\<close>, which \<open>==\<close> does
  not tell apart, are one value.
\<close>

subsection \<open>Floats\<close>

datatype double = Finite real | PInf | NInf | NaN

text \<open>Rounding a real to the nearest integer, ties to the even one.\<close>

definition rhe :: "real \<Rightarrow> int" where
  "rhe y =
     (let f = \<lfloor>y\<rfloor>; d = y - of_int f
      in if d < 1 / 2 then f else if 1 / 2 < d then f + 1 else if even f then f else f + 1)"

text \<open>Powers of two with an integer exponent.\<close>

definition pow2 :: "int \<Rightarrow> real" where
  "pow2 e = (if 0 \<le> e then 2 ^ nat e else 1 / 2 ^ nat (- e))"

text \<open>
  Rounding a non-negative real to 53 significant bits. The number is \<open>x * 2^e\<close>; \<open>x\<close> is
  halved or doubled until it lies between \<open>2^52\<close> and \<open>2^53\<close>, or until \<open>e\<close> has come down
  to \<open>-1074\<close>, the exponent of the spacing of the subnormal numbers, and is then rounded
  to an integer. The first argument bounds the number of steps; 2200 steps are enough
  for every number that does not overflow.
\<close>

fun scale :: "nat \<Rightarrow> real \<Rightarrow> int \<Rightarrow> real" where
  "scale 0 x e = of_int (rhe x) * pow2 e"
| "scale (Suc n) x e =
     (if 2 ^ 53 \<le> x then scale n (x / 2) (e + 1)
      else if x < 2 ^ 52 \<and> - 1074 < e then scale n (x * 2) (e - 1)
      else of_int (rhe x) * pow2 e)"

text \<open>The binary64 number nearest to a real; beyond the largest one, an infinity.\<close>

definition rnd :: "real \<Rightarrow> double" where
  "rnd x =
     (if x = 0 then Finite 0
      else
        (let y = scale 2200 \<bar>x\<bar> 0
         in if 2 ^ 1024 \<le> y then (if x < 0 then NInf else PInf)
            else Finite (if x < 0 then - y else y)))"

text \<open>Unary minus, \<open>+\<close> and \<open>-\<close> on floats.\<close>

fun fneg :: "double \<Rightarrow> double" where
  "fneg (Finite x) = Finite (- x)"
| "fneg PInf = NInf"
| "fneg NInf = PInf"
| "fneg NaN = NaN"

fun fadd :: "double \<Rightarrow> double \<Rightarrow> double" where
  "fadd (Finite x) (Finite y) = rnd (x + y)"
| "fadd NaN b = NaN"
| "fadd a NaN = NaN"
| "fadd PInf NInf = NaN"
| "fadd NInf PInf = NaN"
| "fadd PInf b = PInf"
| "fadd a PInf = PInf"
| "fadd NInf b = NInf"
| "fadd a NInf = NInf"

definition fsub :: "double \<Rightarrow> double \<Rightarrow> double" where
  "fsub a b = fadd a (fneg b)"

text \<open>The comparisons \<open><\<close> and \<open><=\<close>; both are false when an argument is a NaN.\<close>

fun flt :: "double \<Rightarrow> double \<Rightarrow> bool" where
  "flt (Finite x) (Finite y) = (x < y)"
| "flt NaN b = False"
| "flt a NaN = False"
| "flt a NInf = False"
| "flt NInf b = True"
| "flt PInf b = False"
| "flt a PInf = True"

fun fle :: "double \<Rightarrow> double \<Rightarrow> bool" where
  "fle (Finite x) (Finite y) = (x \<le> y)"
| "fle NaN b = False"
| "fle a NaN = False"
| "fle NInf b = True"
| "fle a PInf = True"
| "fle a NInf = False"
| "fle PInf b = False"

text \<open>\<open>min(a, b)\<close> returns \<open>b\<close> when \<open>b < a\<close> and \<open>a\<close> otherwise.\<close>

definition fmin :: "double \<Rightarrow> double \<Rightarrow> double" where
  "fmin a b = (if flt b a then b else a)"

text \<open>
  The quotient of a float by a positive list length. The length is far below \<open>2^53\<close>,
  so its conversion to a float is exact.
\<close>

definition quotient :: "double \<Rightarrow> nat \<Rightarrow> double" where
  "quotient a n = (case a of Finite x \<Rightarrow> rnd (x / real n) | _ \<Rightarrow> a)"

text \<open>
  \<open>round(a, 2)\<close>: the exact value of the float is rounded to the nearest multiple of a
  hundredth, ties to even, and the result to the nearest float. An infinity or a NaN
  is returned as it is.
\<close>

definition round2 :: "double \<Rightarrow> double" where
  "round2 a = (case a of Finite x \<Rightarrow> rnd (of_int (rhe (x * 100)) / 100) | _ \<Rightarrow> a)"

text \<open>The literal \<open>0.01\<close>.\<close>

definition cent :: double where
  "cent = rnd (1 / 100)"

subsection \<open>Data model\<close>

datatype error = ZeroDivisionError | KeyError string | ValueError | TypeError | OverflowError

text \<open>An expense dictionary, with the keys of \<open>add_expense\<close> as fields.\<close>

record expense =
  id_no :: int
  description :: string
  amount :: double
  paid_by :: "string list"
  split_among :: "string list"
  category :: string
  date :: string

text \<open>The attributes set by \<open>reset_trip\<close>.\<close>

record trip_data =
  trip_name :: string
  participants :: "string list"
  expenses :: "expense list"

definition reset_trip :: trip_data where
  "reset_trip = \<lparr>trip_name = [], participants = [], expenses = []\<rparr>"

text \<open>A settlement dictionary with keys \<open>from\<close>, \<open>to\<close> and \<open>amount\<close>.\<close>

record settlement =
  from_s :: string
  to_s :: string
  amount_s :: double

type_synonym balances = "(string \<times> double) list"

subsection \<open>Participants\<close>

text \<open>
  \<open>add_participant\<close>: the test \<open>name and name not in self.participants\<close> is truthiness
  of the string (non-empty) and list membership. The method returns the flag; the model
  returns it together with the new state.
\<close>

definition add_participant :: "string \<Rightarrow> trip_data \<Rightarrow> bool \<times> trip_data" where
  "add_participant name st =
     (if name \<noteq> [] \<and> name \<notin> set (participants st)
      then (True, st\<lparr>participants := participants st @ [name]\<rparr>)
      else (False, st))"

text \<open>
  \<open>remove_participant\<close>: \<open>list.remove\<close> deletes the first occurrence, which is
  \<open>remove1\<close>; inside the loop it is guarded by a membership test.
\<close>

definition drop_name :: "string \<Rightarrow> expense \<Rightarrow> expense" where
  "drop_name name e =
     e\<lparr>paid_by := (if name \<in> set (paid_by e) then remove1 name (paid_by e) else paid_by e),
       split_among := (if name \<in> set (split_among e) then remove1 name (split_among e)
                       else split_among e)\<rparr>"

definition remove_participant :: "string \<Rightarrow> trip_data \<Rightarrow> bool \<times> trip_data" where
  "remove_participant name st =
     (if name \<in> set (participants st)
      then (True, st\<lparr>participants := remove1 name (participants st),
                     expenses := map (drop_name name) (expenses st)\<rparr>)
      else (False, st))"

subsection \<open>Expenses\<close>

text \<open>
  \<open>add_expense\<close> builds the dictionary, appends it and returns it. Building it calls the
  built-in \<open>float(amount)\<close>, which either returns a float or raises (\<open>ValueError\<close> for a
  string that holds no number, \<open>TypeError\<close>, \<open>OverflowError\<close>). The outcome of that call
  is the parameter \<open>amt\<close>: \<open>Inr a\<close> when it returns the float \<open>a\<close>, \<open>Inl err\<close> when it
  raises. The clock reading \<open>datetime.now().strftime(...)\<close> is the parameter \<open>now\<close>;
  writing the file (\<open>save_data\<close>) leaves the ledger unchanged and catches its own
  exceptions.
\<close>

definition add_expense ::
  "string \<Rightarrow> error + double \<Rightarrow> string list \<Rightarrow> string list \<Rightarrow> string \<Rightarrow> string \<Rightarrow> trip_data
     \<Rightarrow> error + (expense \<times> trip_data)" where
  "add_expense descr amt pb sa cat now st =
     (case amt of
        Inl err \<Rightarrow> Inl err
      | Inr a \<Rightarrow>
          (let e = \<lparr>id_no = int (length (expenses st)) + 1, description = descr, amount = a,
                    paid_by = pb, split_among = sa, category = cat, date = now\<rparr>
           in Inr (e, st\<lparr>expenses := expenses st @ [e]\<rparr>)))"

definition remove_expense :: "int \<Rightarrow> trip_data \<Rightarrow> trip_data" where
  "remove_expense expense_id st =
     st\<lparr>expenses := filter (\<lambda>e. id_no e \<noteq> expense_id) (expenses st)\<rparr>"

subsection \<open>Balance calculation\<close>

text \<open>Dividing a float by a list length raises \<open>ZeroDivisionError\<close> on length zero.\<close>

definition truediv :: "double \<Rightarrow> nat \<Rightarrow> error + double" where
  "truediv a n = (if n = 0 then Inl ZeroDivisionError else Inr (quotient a n))"

text \<open>The dictionary comprehension \<open>{person: 0.0 for person in self.participants}\<close>.\<close>

definition init_balances :: "string list \<Rightarrow> balances" where
  "init_balances ps = fold (\<lambda>p b. AList.update p (Finite 0) b) ps []"

text \<open>
  \<open>balances[payer] += expense['amount'] / len(expense['paid_by'])\<close>: the subscript is
  read first (\<open>KeyError\<close> for a missing key), then the quotient is computed, then the
  sum is stored.
\<close>

fun pay_loop :: "expense \<Rightarrow> string list \<Rightarrow> balances \<Rightarrow> error + balances" where
  "pay_loop e [] b = Inr b"
| "pay_loop e (payer # rest) b =
     (case map_of b payer of
        None \<Rightarrow> Inl (KeyError payer)
      | Some v \<Rightarrow>
          (case truediv (amount e) (length (paid_by e)) of
             Inl err \<Rightarrow> Inl err
           | Inr q \<Rightarrow> pay_loop e rest (AList.update payer (fadd v q) b)))"

text \<open>\<open>balances[person] -= amount_per_person\<close>.\<close>

fun split_loop :: "double \<Rightarrow> string list \<Rightarrow> balances \<Rightarrow> error + balances" where
  "split_loop app [] b = Inr b"
| "split_loop app (person # rest) b =
     (case map_of b person of
        None \<Rightarrow> Inl (KeyError person)
      | Some v \<Rightarrow> split_loop app rest (AList.update person (fsub v app) b))"

text \<open>
  The loop over the expenses: \<open>amount_per_person\<close> is computed before either inner
  loop runs.
\<close>

fun expense_loop :: "expense list \<Rightarrow> balances \<Rightarrow> error + balances" where
  "expense_loop [] b = Inr b"
| "expense_loop (e # es) b =
     (case truediv (amount e) (length (split_among e)) of
        Inl err \<Rightarrow> Inl err
      | Inr app \<Rightarrow>
          (case pay_loop e (paid_by e) b of
             Inl err \<Rightarrow> Inl err
           | Inr b1 \<Rightarrow>
               (case split_loop app (split_among e) b1 of
                  Inl err \<Rightarrow> Inl err
                | Inr b2 \<Rightarrow> expense_loop es b2)))"

definition calculate_balances :: "trip_data \<Rightarrow> error + balances" where
  "calculate_balances st = expense_loop (expenses st) (init_balances (participants st))"

subsection \<open>Settlement generation\<close>

text \<open>
  The inner loop \<open>for i, (creditor_name, credit_amount) in enumerate(creditors)\<close>: the
  index \<open>i\<close> runs over the list, whose entry \<open>i\<close> is overwritten in the body. The state
  is the creditor list, the remaining debt and the settlements recorded so far.
\<close>

function creditor_loop ::
  "string \<Rightarrow> nat \<Rightarrow> balances \<Rightarrow> double \<Rightarrow> settlement list \<Rightarrow> balances \<times> settlement list" where
  "creditor_loop debtor_name i creditors remaining_debt settlements =
     (if i < length creditors then
        (let (creditor_name, credit_amount) = creditors ! i in
         if fle remaining_debt cent then (creditors, settlements)
         else
           (let settlement_amount = fmin remaining_debt credit_amount in
            if flt cent settlement_amount then
              creditor_loop debtor_name (Suc i)
                (creditors[i := (creditor_name, fsub credit_amount settlement_amount)])
                (fsub remaining_debt settlement_amount)
                (settlements @ [\<lparr>from_s = debtor_name, to_s = creditor_name,
                                  amount_s = round2 settlement_amount\<rparr>])
            else creditor_loop debtor_name (Suc i) creditors remaining_debt settlements))
      else (creditors, settlements))"
  by pat_completeness auto
termination
  by (relation "measure (\<lambda>(d, i, cs, r, ss). length cs - i)") auto

text \<open>The outer loop \<open>for debtor_name, debt_amount in debtors\<close>.\<close>

fun debtor_loop :: "balances \<Rightarrow> balances \<Rightarrow> settlement list \<Rightarrow> settlement list" where
  "debtor_loop [] creditors settlements = settlements"
| "debtor_loop ((debtor_name, debt_amount) # rest) creditors settlements =
     (case creditor_loop debtor_name 0 creditors debt_amount settlements of
        (creditors', settlements') \<Rightarrow> debtor_loop rest creditors' settlements')"

text \<open>
  The body of \<open>get_settlements\<close> after the balances have been computed: \<open>amount > 0.01\<close>
  selects the creditors, \<open>amount < -0.01\<close> the debtors, who are listed with \<open>-amount\<close>.
\<close>

definition settle :: "balances \<Rightarrow> settlement list" where
  "settle b =
     (let creditors = map (\<lambda>(person, a). (person, a)) (filter (\<lambda>(person, a). flt cent a) b);
          debtors = map (\<lambda>(person, a). (person, fneg a))
                      (filter (\<lambda>(person, a). flt a (fneg cent)) b)
      in debtor_loop debtors creditors [])"

definition get_settlements :: "trip_data \<Rightarrow> error + settlement list" where
  "get_settlements st =
     (case calculate_balances st of Inl err \<Rightarrow> Inl err | Inr b \<Rightarrow> Inr (settle b))"

subsection \<open>Trimming, as the caller does it\<close>

text \<open>
  \<open>MainScreen.add_participant\<close> passes \<open>self.participant_input.text.strip()\<close> to the
  ledger. \<open>str.strip()\<close> drops leading and trailing whitespace; over single-byte
  characters these are the space, the controls \<open>0x09\<close> to \<open>0x0D\<close> and \<open>0x1C\<close> to \<open>0x1F\<close>,
  the next-line control \<open>0x85\<close> and the no-break space \<open>0xA0\<close>.
\<close>

definition isspace :: "char \<Rightarrow> bool" where
  "isspace c =
     (let n = of_char c :: nat
      in n = 32 \<or> (9 \<le> n \<and> n \<le> 13) \<or> (28 \<le> n \<and> n \<le> 31) \<or> n = 133 \<or> n = 160)"

definition strip :: "string \<Rightarrow> string" where
  "strip s = rev (dropWhile isspace (rev (dropWhile isspace s)))"

subsection \<open>Example ledgers\<close>

text \<open>A roster of two, built through \<open>add_participant\<close>.\<close>

definition trip_ab :: trip_data where
  "trip_ab = snd (add_participant ''Bob'' (snd (add_participant ''Alice'' reset_trip)))"

text \<open>The state after a successful \<open>add_expense\<close>; the old state if it raised.\<close>

definition added ::
  "string \<Rightarrow> error + double \<Rightarrow> string list \<Rightarrow> string list \<Rightarrow> string \<Rightarrow> string \<Rightarrow> trip_data
     \<Rightarrow> trip_data" where
  "added descr amt pb sa cat now st =
     (case add_expense descr amt pb sa cat now st of Inl err \<Rightarrow> st | Inr (e, st') \<Rightarrow> st')"

text \<open>Alice pays a taxi for Bob, then Bob is removed from the trip.\<close>

definition taxi_trip :: trip_data where
  "taxi_trip =
     added ''Taxi'' (Inr (Finite 100)) [''Alice''] [''Bob''] ''General'' ''2024-05-01 10:00''
       trip_ab"

definition bob_removed :: trip_data where
  "bob_removed = snd (remove_participant ''Bob'' taxi_trip)"

text \<open>An expense paid by somebody who was never added to the roster.\<close>

definition zed_trip :: trip_data where
  "zed_trip =
     added ''Lunch'' (Inr (Finite 30)) [''Zed''] [''Alice'', ''Bob''] ''Food''
       ''2024-05-01 13:00'' trip_ab"

text \<open>Two expenses, the first deleted, a third added: both survivors carry identifier 2.\<close>

definition dup_ids :: trip_data where
  "dup_ids =
     added ''Museum'' (Inr (Finite 24)) [''Bob''] [''Alice'', ''Bob''] ''General''
       ''2024-05-02 11:00''
       (remove_expense 1
         (added ''Lunch'' (Inr (Finite 30)) [''Alice''] [''Alice'', ''Bob''] ''Food''
            ''2024-05-01 13:00''
           (added ''Taxi'' (Inr (Finite 100)) [''Alice''] [''Alice'', ''Bob''] ''General''
              ''2024-05-01 10:00'' trip_ab)))"

subsection \<open>Notions the properties are stated with\<close>

text \<open>The value a balance dictionary holds for a name (zero for a missing key).\<close>

definition balance_of :: "balances \<Rightarrow> string \<Rightarrow> double" where
  "balance_of b p = (case map_of b p of None \<Rightarrow> Finite 0 | Some v \<Rightarrow> v)"

text \<open>The real number a finite float stands for.\<close>

fun value_of :: "double \<Rightarrow> real" where
  "value_of (Finite x) = x"
| "value_of a = 0"

text \<open>
  What one expense does to the balance \<open>v\<close> of \<open>p\<close> in \<open>calculate_balances\<close>: the payers'
  share is added if \<open>p\<close> paid, then the beneficiaries' share is subtracted if \<open>p\<close>
  shares in the expense. What the whole loop does to it: the same for every expense,
  in list order, from \<open>0.0\<close>.
\<close>

definition post :: "expense \<Rightarrow> string \<Rightarrow> double \<Rightarrow> double" where
  "post e p v =
     (let v1 = (if p \<in> set (paid_by e)
                then fadd v (quotient (amount e) (length (paid_by e))) else v)
      in if p \<in> set (split_among e)
         then fsub v1 (quotient (amount e) (length (split_among e))) else v1)"

definition accumulated :: "expense list \<Rightarrow> string \<Rightarrow> double" where
  "accumulated es p = fold (\<lambda>e v. post e p v) es (Finite 0)"

text \<open>
  The balance as the specification writes it, in real numbers: the sum of
  \<open>amount / |paid_by|\<close> over the expenses \<open>p\<close> paid for, minus the sum of
  \<open>amount / |split_among|\<close> over the expenses \<open>p\<close> shares in.
\<close>

definition spec_balance :: "expense list \<Rightarrow> string \<Rightarrow> real" where
  "spec_balance es p =
     (\<Sum>e\<leftarrow>filter (\<lambda>e. p \<in> set (paid_by e)) es.
        value_of (amount e) / real (card (set (paid_by e))))
     - (\<Sum>e\<leftarrow>filter (\<lambda>e. p \<in> set (split_among e)) es.
        value_of (amount e) / real (card (set (split_among e))))"

text \<open>Every expense has a payer and a beneficiary, and names only participants.\<close>

definition names_known :: "trip_data \<Rightarrow> bool" where
  "names_known st \<longleftrightarrow>
     (\<forall>e\<in>set (expenses st). paid_by e \<noteq> [] \<and> split_among e \<noteq> []
        \<and> set (paid_by e) \<subseteq> set (participants st)
        \<and> set (split_among e) \<subseteq> set (participants st))"

text \<open>
  The roster and the name lists of the expenses are sets in the specification: no name
  occurs twice in any of them.
\<close>

definition duplicate_free :: "trip_data \<Rightarrow> bool" where
  "duplicate_free st \<longleftrightarrow>
     distinct (participants st)
     \<and> (\<forall>e\<in>set (expenses st). distinct (paid_by e) \<and> distinct (split_among e))"

text \<open>Scenario A: Alice pays 100 for a dinner shared with Bob.\<close>

definition scenario_a :: trip_data where
  "scenario_a =
     added ''Dinner'' (Inr (Finite 100)) [''Alice''] [''Alice'', ''Bob''] ''Food''
       ''2024-05-01 20:00'' trip_ab"

text \<open>
  Alice pays ten million billion for Bob; Bob pays 1 for Alice; Bob pays ten million
  billion for Alice.
\<close>

definition big_trip :: trip_data where
  "big_trip =
     added ''Refund'' (Inr (Finite (10 ^ 16))) [''Bob''] [''Alice''] ''General''
       ''2024-05-03 10:00''
       (added ''Stamp'' (Inr (Finite 1)) [''Bob''] [''Alice''] ''General'' ''2024-05-02 10:00''
         (added ''Yacht'' (Inr (Finite (10 ^ 16))) [''Alice''] [''Bob''] ''General''
            ''2024-05-01 10:00'' trip_ab))"


subsection \<open>Notions for conservation\<close>

text \<open>A float that is a number.\<close>

fun is_finite :: "double \<Rightarrow> bool" where
  "is_finite (Finite x) = True"
| "is_finite a = False"

text \<open>
  What one expense contributes to the balance of \<open>p\<close> in real numbers: the payers' share
  if \<open>p\<close> paid, minus the beneficiaries' share if \<open>p\<close> shares in it.
\<close>

definition net_share :: "expense \<Rightarrow> string \<Rightarrow> real" where
  "net_share e p =
     (if p \<in> set (paid_by e) then value_of (amount e) / real (length (paid_by e)) else 0)
     - (if p \<in> set (split_among e) then value_of (amount e) / real (length (split_among e))
        else 0)"

text \<open>Conservation of money: the balances are numbers and sum to zero within a hundredth.\<close>

definition conserved :: "balances \<Rightarrow> bool" where
  "conserved b \<longleftrightarrow>
     (\<forall>x\<in>set b. is_finite (snd x)) \<and> \<bar>\<Sum>x\<leftarrow>b. value_of (snd x)\<bar> \<le> 1 / 100"

text \<open>Alice pays a taxi for Bob, then Alice is removed: the expense has no payer left.\<close>

definition alice_removed :: trip_data where
  "alice_removed = snd (remove_participant ''Alice'' taxi_trip)"

text \<open>Ann pays a million billion for a house shared with Ben and Cat.\<close>

definition thirds_trip :: trip_data where
  "thirds_trip =
     \<lparr>trip_name = [], participants = [''Ann'', ''Ben'', ''Cat''],
      expenses =
        [\<lparr>id_no = 1, description = ''House'', amount = Finite (10 ^ 15), paid_by = [''Ann''],
           split_among = [''Ann'', ''Ben'', ''Cat''], category = ''General'',
           date = ''2024-05-01 10:00''\<rparr>]\<rparr>"

text \<open>Every amount is a number of magnitude at most \<open>A\<close>.\<close>

definition amounts_within :: "real \<Rightarrow> trip_data \<Rightarrow> bool" where
  "amounts_within A st \<longleftrightarrow>
     (\<forall>e\<in>set (expenses st). is_finite (amount e) \<and> \<bar>value_of (amount e)\<bar> \<le> A)"

subsection \<open>The settlement sweep, written as a recursion\<close>

text \<open>
  Creditors and debtors as the specification lists them: the roster in insertion order,
  restricted to the balances above a hundredth, with the credit, and to those below
  minus a hundredth, with the absolute debt.
\<close>

definition spec_creditors :: "string list \<Rightarrow> (string \<Rightarrow> double) \<Rightarrow> balances" where
  "spec_creditors roster bal = map (\<lambda>p. (p, bal p)) (filter (\<lambda>p. flt cent (bal p)) roster)"

definition spec_debtors :: "string list \<Rightarrow> (string \<Rightarrow> double) \<Rightarrow> balances" where
  "spec_debtors roster bal =
     map (\<lambda>p. (p, fneg (bal p))) (filter (\<lambda>p. flt (bal p) (fneg cent)) roster)"

text \<open>
  The sweep in the specification's words. For one debtor the creditor list is scanned
  in order while the remaining debt exceeds a hundredth; \<open>min(remaining_debt,
  remaining_credit)\<close> is transferred; a record is appended when the transferred amount
  exceeds a hundredth, rounded to two places; the debt and that creditor's credit are
  decremented by the transfer, and the updated credits go on to the next debtor.
\<close>

fun spec_pay :: "string \<Rightarrow> double \<Rightarrow> balances \<Rightarrow> balances \<times> settlement list" where
  "spec_pay d rem [] = ([], [])"
| "spec_pay d rem ((c, credit) # cs) =
     (if flt cent rem then
        (let t = fmin rem credit in
         case spec_pay d (fsub rem t) cs of
           (cs', ss) \<Rightarrow>
             ((c, fsub credit t) # cs',
              (if flt cent t then [\<lparr>from_s = d, to_s = c, amount_s = round2 t\<rparr>] else []) @ ss))
      else ((c, credit) # cs, []))"

fun spec_sweep :: "balances \<Rightarrow> balances \<Rightarrow> settlement list" where
  "spec_sweep [] cs = []"
| "spec_sweep ((d, debt) # ds) cs =
     (case spec_pay d debt cs of (cs', ss) \<Rightarrow> ss @ spec_sweep ds cs')"

definition spec_settlements :: "string list \<Rightarrow> (string \<Rightarrow> double) \<Rightarrow> settlement list" where
  "spec_settlements roster bal = spec_sweep (spec_debtors roster bal) (spec_creditors roster bal)"

text \<open>
  The same sweep with one change: a transfer of a hundredth or less is not made at all
  (neither recorded nor deducted).
\<close>

fun greedy_pay :: "string \<Rightarrow> double \<Rightarrow> balances \<Rightarrow> balances \<times> settlement list" where
  "greedy_pay d rem [] = ([], [])"
| "greedy_pay d rem ((c, credit) # cs) =
     (if flt cent rem then
        (let t = fmin rem credit in
         if flt cent t then
           (case greedy_pay d (fsub rem t) cs of
              (cs', ss) \<Rightarrow>
                ((c, fsub credit t) # cs', \<lparr>from_s = d, to_s = c, amount_s = round2 t\<rparr> # ss))
         else
           (case greedy_pay d rem cs of (cs', ss) \<Rightarrow> ((c, credit) # cs', ss)))
      else ((c, credit) # cs, []))"

fun greedy_sweep :: "balances \<Rightarrow> balances \<Rightarrow> settlement list" where
  "greedy_sweep [] cs = []"
| "greedy_sweep ((d, debt) # ds) cs =
     (case greedy_pay d debt cs of (cs', ss) \<Rightarrow> ss @ greedy_sweep ds cs')"

definition greedy_settlements :: "string list \<Rightarrow> (string \<Rightarrow> double) \<Rightarrow> settlement list" where
  "greedy_settlements roster bal =
     greedy_sweep (spec_debtors roster bal) (spec_creditors roster bal)"

text \<open>
  Four expenses, of 1, 0.006, 0.014 and 0.986, that leave Ann with a credit of 1.006,
  Ben with 1, and Cat, Dan and Eve with debts of 1, 0.014 and 0.992.
\<close>

definition residue_trip :: trip_data where
  "residue_trip =
     \<lparr>trip_name = [], participants = [''Ann'', ''Ben'', ''Cat'', ''Dan'', ''Eve''],
      expenses =
        [\<lparr>id_no = 1, description = ''Bus'', amount = Finite 1, paid_by = [''Ann''],
           split_among = [''Cat''], category = ''General'', date = ''2024-05-01 10:00''\<rparr>,
         \<lparr>id_no = 2, description = ''Toll'', amount = rnd (6 / 1000), paid_by = [''Ann''],
           split_among = [''Eve''], category = ''General'', date = ''2024-05-01 10:05''\<rparr>,
         \<lparr>id_no = 3, description = ''Gum'', amount = rnd (14 / 1000), paid_by = [''Ben''],
           split_among = [''Dan''], category = ''General'', date = ''2024-05-01 10:10''\<rparr>,
         \<lparr>id_no = 4, description = ''Tea'', amount = rnd (986 / 1000), paid_by = [''Ben''],
           split_among = [''Eve''], category = ''General'', date = ''2024-05-01 10:15''\<rparr>]\<rparr>"


declare creditor_loop.simps [simp del]

section \<open>Properties\<close>

subsection \<open>Evaluating float operations\<close>

lemma scale_numeral:
  "scale (numeral k) x e =
     (if 2 ^ 53 \<le> x then scale (pred_numeral k) (x / 2) (e + 1)
      else if x < 2 ^ 52 \<and> - 1074 < e then scale (pred_numeral k) (x * 2) (e - 1)
      else of_int (rhe x) * pow2 e)"
  by (simp add: numeral_eq_Suc)

lemmas float_eval =
  rnd_def scale_numeral rhe_def pow2_def Let_def fsub_def fmin_def quotient_def round2_def
  truediv_def

lemma cent_eq: "cent = Finite (5764607523034235 / 2 ^ 59)"
  by (simp add: cent_def float_eval)

subsection \<open>The example ledgers, evaluated\<close>

lemma trip_ab_eq:
  "trip_ab = \<lparr>trip_name = [], participants = [''Alice'', ''Bob''], expenses = []\<rparr>"
  by (simp add: trip_ab_def add_participant_def reset_trip_def)

lemma taxi_trip_eq:
  "taxi_trip = \<lparr>trip_name = [], participants = [''Alice'', ''Bob''],
     expenses = [\<lparr>id_no = 1, description = ''Taxi'', amount = Finite 100, paid_by = [''Alice''],
       split_among = [''Bob''], category = ''General'', date = ''2024-05-01 10:00''\<rparr>]\<rparr>"
  by (simp add: taxi_trip_def added_def add_expense_def Let_def trip_ab_eq)

lemma bob_removed_eq:
  "bob_removed = \<lparr>trip_name = [], participants = [''Alice''],
     expenses = [\<lparr>id_no = 1, description = ''Taxi'', amount = Finite 100, paid_by = [''Alice''],
       split_among = [], category = ''General'', date = ''2024-05-01 10:00''\<rparr>]\<rparr>"
  by (simp add: bob_removed_def remove_participant_def drop_name_def taxi_trip_eq)

lemma zed_trip_eq:
  "zed_trip = \<lparr>trip_name = [], participants = [''Alice'', ''Bob''],
     expenses = [\<lparr>id_no = 1, description = ''Lunch'', amount = Finite 30, paid_by = [''Zed''],
       split_among = [''Alice'', ''Bob''], category = ''Food'', date = ''2024-05-01 13:00''\<rparr>]\<rparr>"
  by (simp add: zed_trip_def added_def add_expense_def Let_def trip_ab_eq)

lemma dup_ids_eq:
  "dup_ids = \<lparr>trip_name = [], participants = [''Alice'', ''Bob''],
     expenses = [\<lparr>id_no = 2, description = ''Lunch'', amount = Finite 30, paid_by = [''Alice''],
         split_among = [''Alice'', ''Bob''], category = ''Food'', date = ''2024-05-01 13:00''\<rparr>,
       \<lparr>id_no = 2, description = ''Museum'', amount = Finite 24, paid_by = [''Bob''],
         split_among = [''Alice'', ''Bob''], category = ''General'', date = ''2024-05-02 11:00''\<rparr>]\<rparr>"
  by (simp add: dup_ids_def added_def add_expense_def Let_def remove_expense_def trip_ab_eq)

lemma scenario_a_eq:
  "scenario_a = \<lparr>trip_name = [], participants = [''Alice'', ''Bob''],
     expenses = [\<lparr>id_no = 1, description = ''Dinner'', amount = Finite 100, paid_by = [''Alice''],
       split_among = [''Alice'', ''Bob''], category = ''Food'', date = ''2024-05-01 20:00''\<rparr>]\<rparr>"
  by (simp add: scenario_a_def added_def add_expense_def Let_def trip_ab_eq)

lemma big_trip_eq:
  "big_trip = \<lparr>trip_name = [], participants = [''Alice'', ''Bob''],
     expenses = [\<lparr>id_no = 1, description = ''Yacht'', amount = Finite (10 ^ 16),
         paid_by = [''Alice''], split_among = [''Bob''], category = ''General'',
         date = ''2024-05-01 10:00''\<rparr>,
       \<lparr>id_no = 2, description = ''Stamp'', amount = Finite 1, paid_by = [''Bob''],
         split_among = [''Alice''], category = ''General'', date = ''2024-05-02 10:00''\<rparr>,
       \<lparr>id_no = 3, description = ''Refund'', amount = Finite (10 ^ 16), paid_by = [''Bob''],
         split_among = [''Alice''], category = ''General'', date = ''2024-05-03 10:00''\<rparr>]\<rparr>"
  by (simp add: big_trip_def added_def add_expense_def Let_def trip_ab_eq)


subsection \<open>Adding and removing expenses\<close>

lemma count_matching_distinct:
  "distinct (map f xs) \<Longrightarrow> length (filter (\<lambda>x. f x = i) xs) = (if i \<in> f ` set xs then 1 else 0)"
  by (induction xs) auto

lemma filter_none_matching: "i \<notin> f ` set xs \<Longrightarrow> filter (\<lambda>x. f x \<noteq> i) xs = xs"
  by (induction xs) auto

text \<open>
  Claim C6, as stated: \<open>add_expense\<close> rejects an amount that is zero or negative and
  appends nothing. The method has no such check: with amount \<open>-5\<close>, for which \<open>float\<close>
  returns \<open>-5.0\<close>, it returns the new expense and the ledger holds it.
\<close>

theorem add_expense_negative_amount_accepted:
  "add_expense ''Refund'' (Inr (Finite (- 5))) [''Alice''] [''Alice'', ''Bob''] ''General''
      ''2024-05-01 10:00'' trip_ab
     = Inr (\<lparr>id_no = 1, description = ''Refund'', amount = Finite (- 5), paid_by = [''Alice''],
              split_among = [''Alice'', ''Bob''], category = ''General'',
              date = ''2024-05-01 10:00''\<rparr>,
            \<lparr>trip_name = [], participants = [''Alice'', ''Bob''],
              expenses = [\<lparr>id_no = 1, description = ''Refund'', amount = Finite (- 5),
                paid_by = [''Alice''], split_among = [''Alice'', ''Bob''],
                category = ''General'', date = ''2024-05-01 10:00''\<rparr>]\<rparr>)"
  by (simp add: add_expense_def Let_def trip_ab_eq)

text \<open>
  Claim C6, amended: \<open>add_expense\<close> never looks at the amount it stores. Whenever
  \<open>float(amount)\<close> returns, whatever float it returns (positive, zero, negative, an
  infinity or a NaN), exactly one expense is appended, with identifier
  \<open>len(expenses) + 1\<close>, that float as amount and the given fields, and it is returned.
  An expense is refused only when \<open>float(amount)\<close> itself raises; the exception it raises
  is the one the caller sees, and nothing is appended.
\<close>

theorem add_expense_no_amount_check:
  "add_expense descr (Inr a) pb sa cat now st
     = Inr (\<lparr>id_no = int (length (expenses st)) + 1, description = descr, amount = a,
              paid_by = pb, split_among = sa, category = cat, date = now\<rparr>,
            st\<lparr>expenses := expenses st @
              [\<lparr>id_no = int (length (expenses st)) + 1, description = descr, amount = a,
                paid_by = pb, split_among = sa, category = cat, date = now\<rparr>]\<rparr>)
   \<and> add_expense descr (Inl err) pb sa cat now st = Inl err"
  by (simp add: add_expense_def Let_def)

text \<open>
  Claim C9: \<open>remove_expense\<close> removes exactly one expense when the identifier matches,
  identifiers being assigned as the current expense count plus one. That count shrinks
  on deletion, so the assignment hands out an identifier that is still in use: after
  two additions, the deletion of expense 1 and a third addition, both expenses carry
  identifier 2, and removing 2 deletes them both.
\<close>

theorem remove_expense_duplicate_ids:
  "map id_no (expenses dup_ids) = [2, 2] \<and> expenses (remove_expense 2 dup_ids) = []"
  by (simp add: dup_ids_eq remove_expense_def)

text \<open>
  What \<open>remove_expense i\<close> does in general: it deletes every expense whose identifier is
  \<open>i\<close> and keeps all the others, unchanged and in order; with no match the ledger is
  unchanged; exactly one expense goes when the identifiers are pairwise distinct.
\<close>

lemma remove_expense_all_matching:
  "expenses (remove_expense i st) = filter (\<lambda>e. id_no e \<noteq> i) (expenses st)
   \<and> participants (remove_expense i st) = participants st
   \<and> trip_name (remove_expense i st) = trip_name st
   \<and> length (expenses (remove_expense i st)) + length (filter (\<lambda>e. id_no e = i) (expenses st))
       = length (expenses st)
   \<and> (i \<notin> id_no ` set (expenses st) \<longrightarrow> remove_expense i st = st)
   \<and> (distinct (map id_no (expenses st)) \<and> i \<in> id_no ` set (expenses st) \<longrightarrow>
        length (expenses (remove_expense i st)) + 1 = length (expenses st))"
proof -
  have len: "length (filter (\<lambda>e. id_no e \<noteq> i) (expenses st))
      + length (filter (\<lambda>e. id_no e = i) (expenses st)) = length (expenses st)"
    using sum_length_filter_compl [of "\<lambda>e. id_no e = i" "expenses st"] by simp
  have absent: "i \<notin> id_no ` set (expenses st) \<Longrightarrow> remove_expense i st = st"
    by (simp add: remove_expense_def filter_none_matching)
  have one: "distinct (map id_no (expenses st)) \<Longrightarrow> i \<in> id_no ` set (expenses st) \<Longrightarrow>
      length (filter (\<lambda>e. id_no e \<noteq> i) (expenses st)) + 1 = length (expenses st)"
    using len count_matching_distinct [of id_no "expenses st" i] by simp
  show ?thesis
    using len absent one by (simp add: remove_expense_def)
qed

subsection \<open>Adding a participant\<close>

text \<open>
  Claim C7, as stated: \<open>add_participant\<close> succeeds only for a name that is non-empty
  after trimming whitespace. The method does not trim (its caller does): a name of one
  space, empty once trimmed, is accepted and stored.
\<close>

theorem add_participant_blank_accepted:
  "strip '' '' = [] \<and> add_participant '' '' reset_trip
     = (True, \<lparr>trip_name = [], participants = ['' ''], expenses = []\<rparr>)"
  by (simp add: strip_def isspace_def add_participant_def reset_trip_def)

text \<open>
  Claim C7, amended: \<open>add_participant name\<close> returns true and appends \<open>name\<close> to the
  roster if and only if \<open>name\<close> is a non-empty string, as it is passed and without any
  trimming, that is not already in the roster under exact comparison; in every other
  case it returns false and leaves the whole ledger unchanged.
\<close>

theorem add_participant_untrimmed:
  "(fst (add_participant name st) \<longleftrightarrow> name \<noteq> [] \<and> name \<notin> set (participants st))
   \<and> (fst (add_participant name st) \<longrightarrow>
        snd (add_participant name st) = st\<lparr>participants := participants st @ [name]\<rparr>)
   \<and> (\<not> fst (add_participant name st) \<longrightarrow> snd (add_participant name st) = st)"
  by (simp add: add_participant_def)

theorem add_participant_untrimmed_witness:
  "fst (add_participant ''Carol'' trip_ab)
   \<and> snd (add_participant ''Carol'' trip_ab)
       = trip_ab\<lparr>participants := [''Alice'', ''Bob'', ''Carol'']\<rparr>
   \<and> \<not> fst (add_participant ''Bob'' trip_ab)
   \<and> snd (add_participant ''Bob'' trip_ab) = trip_ab
   \<and> \<not> fst (add_participant [] trip_ab)"
  using add_participant_untrimmed [of "''Carol''" trip_ab]
    add_participant_untrimmed [of "''Bob''" trip_ab]
    add_participant_untrimmed [of "[]" trip_ab]
  by (simp add: trip_ab_eq)

subsection \<open>Balances that cannot be computed\<close>

text \<open>
  Claim C1 says that \<open>calculate_balances\<close> returns a mapping, without a division fault,
  also when an expense has lost all its payers or all its beneficiaries. Here Alice pays
  for Bob and Bob is then removed: the expense stays, with an empty \<open>split_among\<close>, and
  both \<open>calculate_balances\<close> and \<open>get_settlements\<close> raise \<open>ZeroDivisionError\<close>.
\<close>

theorem calculate_balances_empty_split_raises:
  "map split_among (expenses bob_removed) = [[]]
   \<and> calculate_balances bob_removed = Inl ZeroDivisionError
   \<and> get_settlements bob_removed = Inl ZeroDivisionError"
  by (simp add: bob_removed_eq get_settlements_def calculate_balances_def init_balances_def
      truediv_def)

text \<open>
  Claim C10: \<open>add_expense\<close> does not compare \<open>paid_by\<close> or \<open>split_among\<close> with the roster.
  An expense paid by Zed, who is not a participant, is accepted, and the next
  \<open>calculate_balances\<close> fails with \<open>KeyError\<close> on that name.
\<close>

theorem unknown_payer_accepted_then_key_error:
  "add_expense ''Lunch'' (Inr (Finite 30)) [''Zed''] [''Alice'', ''Bob''] ''Food''
      ''2024-05-01 13:00'' trip_ab
     = Inr (\<lparr>id_no = 1, description = ''Lunch'', amount = Finite 30, paid_by = [''Zed''],
              split_among = [''Alice'', ''Bob''], category = ''Food'',
              date = ''2024-05-01 13:00''\<rparr>, zed_trip)
   \<and> ''Zed'' \<notin> set (participants trip_ab)
   \<and> calculate_balances zed_trip = Inl (KeyError ''Zed'')"
  by (simp add: zed_trip_eq add_expense_def Let_def trip_ab_eq calculate_balances_def
      init_balances_def truediv_def quotient_def)


subsection \<open>Removing a participant\<close>

lemma drop_name_fields:
  "id_no (drop_name name e) = id_no e" "description (drop_name name e) = description e"
  "amount (drop_name name e) = amount e" "category (drop_name name e) = category e"
  "date (drop_name name e) = date e"
  by (simp_all add: drop_name_def)

lemma drop_name_lists:
  "distinct (paid_by e) \<Longrightarrow> paid_by (drop_name name e) = removeAll name (paid_by e)"
  "distinct (split_among e) \<Longrightarrow> split_among (drop_name name e) = removeAll name (split_among e)"
  by (simp_all add: drop_name_def distinct_remove1_removeAll)

text \<open>
  Claim C8: \<open>remove_participant name\<close> returns true iff \<open>name\<close> is in the roster. On
  success the name is gone from the roster and from the \<open>paid_by\<close> and \<open>split_among\<close> of
  every expense, the number of expenses is the same, and the identifier, description,
  amount, category and date of every expense are unchanged. When the name is absent the
  result is false and the ledger is unchanged.

  The roster and the two name collections of an expense are sets in the data model;
  here they are lists without repetition, which is what the hypothesis says.
\<close>

theorem remove_participant_frame:
  assumes dup: "duplicate_free st"
  shows "(fst (remove_participant name st) \<longleftrightarrow> name \<in> set (participants st))
    \<and> (name \<in> set (participants st) \<longrightarrow>
         participants (snd (remove_participant name st)) = removeAll name (participants st)
         \<and> name \<notin> set (participants (snd (remove_participant name st)))
         \<and> trip_name (snd (remove_participant name st)) = trip_name st
         \<and> length (expenses (snd (remove_participant name st))) = length (expenses st)
         \<and> (\<forall>i<length (expenses st).
              paid_by (expenses (snd (remove_participant name st)) ! i)
                = removeAll name (paid_by (expenses st ! i))
              \<and> split_among (expenses (snd (remove_participant name st)) ! i)
                = removeAll name (split_among (expenses st ! i))
              \<and> id_no (expenses (snd (remove_participant name st)) ! i) = id_no (expenses st ! i)
              \<and> description (expenses (snd (remove_participant name st)) ! i)
                = description (expenses st ! i)
              \<and> amount (expenses (snd (remove_participant name st)) ! i) = amount (expenses st ! i)
              \<and> category (expenses (snd (remove_participant name st)) ! i)
                = category (expenses st ! i)
              \<and> date (expenses (snd (remove_participant name st)) ! i) = date (expenses st ! i)))
    \<and> (name \<notin> set (participants st) \<longrightarrow> snd (remove_participant name st) = st)"
proof -
  have roster: "distinct (participants st)"
    and lists: "\<forall>e\<in>set (expenses st). distinct (paid_by e) \<and> distinct (split_among e)"
    using dup by (simp_all add: duplicate_free_def)
  have flag: "fst (remove_participant name st) \<longleftrightarrow> name \<in> set (participants st)"
    by (simp add: remove_participant_def)
  have absent: "name \<notin> set (participants st) \<Longrightarrow> snd (remove_participant name st) = st"
    by (simp add: remove_participant_def)
  have present: "participants (snd (remove_participant name st)) = removeAll name (participants st)
      \<and> trip_name (snd (remove_participant name st)) = trip_name st
      \<and> expenses (snd (remove_participant name st)) = map (drop_name name) (expenses st)"
    if "name \<in> set (participants st)"
    using that roster by (simp add: remove_participant_def distinct_remove1_removeAll)
  have each: "paid_by (drop_name name (expenses st ! i)) = removeAll name (paid_by (expenses st ! i))
      \<and> split_among (drop_name name (expenses st ! i))
          = removeAll name (split_among (expenses st ! i))"
    if "i < length (expenses st)" for i
  proof -
    from that have "expenses st ! i \<in> set (expenses st)" by simp
    with lists have "distinct (paid_by (expenses st ! i))"
      and "distinct (split_among (expenses st ! i))" by auto
    then show ?thesis by (simp add: drop_name_lists)
  qed
  show ?thesis
    using flag absent present each by (simp add: drop_name_fields)
qed

theorem remove_participant_frame_witness:
  "duplicate_free taxi_trip
   \<and> fst (remove_participant ''Bob'' taxi_trip)
   \<and> participants (snd (remove_participant ''Bob'' taxi_trip)) = [''Alice'']
   \<and> length (expenses (snd (remove_participant ''Bob'' taxi_trip))) = 1
   \<and> split_among (expenses (snd (remove_participant ''Bob'' taxi_trip)) ! 0) = []
   \<and> paid_by (expenses (snd (remove_participant ''Bob'' taxi_trip)) ! 0) = [''Alice'']
   \<and> amount (expenses (snd (remove_participant ''Bob'' taxi_trip)) ! 0) = Finite 100
   \<and> \<not> fst (remove_participant ''Carol'' taxi_trip)
   \<and> snd (remove_participant ''Carol'' taxi_trip) = taxi_trip"
proof -
  have d: "duplicate_free taxi_trip" by (simp add: duplicate_free_def taxi_trip_eq)
  show ?thesis
    using d remove_participant_frame [OF d, of "''Bob''"]
      remove_participant_frame [OF d, of "''Carol''"]
    by (simp add: taxi_trip_eq)
qed


subsection \<open>Balance calculation: what the loops compute\<close>

lemma update_present_keys:
  "map_of b k = Some v \<Longrightarrow> map fst (AList.update k w b) = map fst b"
  by (induction b) (auto split: if_splits)

lemma balance_of_update:
  "balance_of (AList.update k w b) p = (if p = k then w else balance_of b p)"
  by (simp add: balance_of_def update_conv')

lemma known_key: "k \<in> set (map fst b) \<Longrightarrow> \<exists>v. map_of b k = Some v"
  by (induction b) auto

lemma pay_loop_result:
  "set ps \<subseteq> set (map fst b) \<Longrightarrow> distinct ps \<Longrightarrow> paid_by e \<noteq> [] \<Longrightarrow>
   \<exists>b'. pay_loop e ps b = Inr b' \<and> map fst b' = map fst b
     \<and> (\<forall>p. balance_of b' p
          = (if p \<in> set ps
             then fadd (balance_of b p) (quotient (amount e) (length (paid_by e)))
             else balance_of b p))"
proof (induction ps arbitrary: b)
  case Nil
  then show ?case by simp
next
  case (Cons x ps)
  then obtain v where v: "map_of b x = Some v" using known_key [of x b] by auto
  define q where "q = quotient (amount e) (length (paid_by e))"
  let ?b1 = "AList.update x (fadd v q) b"
  have keys: "map fst ?b1 = map fst b" using v by (rule update_present_keys)
  with Cons.prems have sub: "set ps \<subseteq> set (map fst ?b1)" by simp
  from Cons.prems have fresh: "x \<notin> set ps" and dist: "distinct ps" by simp_all
  from Cons.IH [OF sub dist Cons.prems(3)] obtain b' where
    r: "pay_loop e ps ?b1 = Inr b'" and k: "map fst b' = map fst ?b1"
    and bal: "\<forall>p. balance_of b' p
        = (if p \<in> set ps then fadd (balance_of ?b1 p) q else balance_of ?b1 p)"
    unfolding q_def by blast
  have bv: "balance_of b x = v" using v by (simp add: balance_of_def)
  have "pay_loop e (x # ps) b = Inr b'"
    using v r Cons.prems(3) by (simp add: truediv_def q_def)
  moreover have "map fst b' = map fst b" using k keys by simp
  moreover have "\<forall>p. balance_of b' p
      = (if p \<in> set (x # ps) then fadd (balance_of b p) q else balance_of b p)"
    using bal bv fresh by (auto simp: balance_of_update)
  ultimately show ?case unfolding q_def by blast
qed

lemma split_loop_result:
  "set ps \<subseteq> set (map fst b) \<Longrightarrow> distinct ps \<Longrightarrow>
   \<exists>b'. split_loop app ps b = Inr b' \<and> map fst b' = map fst b
     \<and> (\<forall>p. balance_of b' p
          = (if p \<in> set ps then fsub (balance_of b p) app else balance_of b p))"
proof (induction ps arbitrary: b)
  case Nil
  then show ?case by simp
next
  case (Cons x ps)
  then obtain v where v: "map_of b x = Some v" using known_key [of x b] by auto
  let ?b1 = "AList.update x (fsub v app) b"
  have keys: "map fst ?b1 = map fst b" using v by (rule update_present_keys)
  with Cons.prems have sub: "set ps \<subseteq> set (map fst ?b1)" by simp
  from Cons.prems have fresh: "x \<notin> set ps" and dist: "distinct ps" by simp_all
  from Cons.IH [OF sub dist] obtain b' where
    r: "split_loop app ps ?b1 = Inr b'" and k: "map fst b' = map fst ?b1"
    and bal: "\<forall>p. balance_of b' p
        = (if p \<in> set ps then fsub (balance_of ?b1 p) app else balance_of ?b1 p)"
    by blast
  have bv: "balance_of b x = v" using v by (simp add: balance_of_def)
  have "split_loop app (x # ps) b = Inr b'"
    using v r by simp
  moreover have "map fst b' = map fst b" using k keys by simp
  moreover have "\<forall>p. balance_of b' p
      = (if p \<in> set (x # ps) then fsub (balance_of b p) app else balance_of b p)"
    using bal bv fresh by (auto simp: balance_of_update)
  ultimately show ?case by blast
qed

lemma expense_loop_result:
  "\<forall>e\<in>set es. paid_by e \<noteq> [] \<and> split_among e \<noteq> []
      \<and> distinct (paid_by e) \<and> distinct (split_among e)
      \<and> set (paid_by e) \<subseteq> set (map fst b) \<and> set (split_among e) \<subseteq> set (map fst b) \<Longrightarrow>
   \<exists>b'. expense_loop es b = Inr b' \<and> map fst b' = map fst b
     \<and> (\<forall>p. balance_of b' p = fold (\<lambda>e v. post e p v) es (balance_of b p))"
proof (induction es arbitrary: b)
  case Nil
  then show ?case by simp
next
  case (Cons e es)
  have pb: "paid_by e \<noteq> []" and sa: "split_among e \<noteq> []"
    and dp: "distinct (paid_by e)" and ds: "distinct (split_among e)"
    and pk: "set (paid_by e) \<subseteq> set (map fst b)" and sk: "set (split_among e) \<subseteq> set (map fst b)"
    using Cons.prems by auto
  define q where "q = quotient (amount e) (length (paid_by e))"
  define app where "app = quotient (amount e) (length (split_among e))"
  from pay_loop_result [OF pk dp pb] obtain b1 where
    r1: "pay_loop e (paid_by e) b = Inr b1" and k1: "map fst b1 = map fst b"
    and v1: "\<forall>p. balance_of b1 p
        = (if p \<in> set (paid_by e) then fadd (balance_of b p) q else balance_of b p)"
    unfolding q_def by blast
  from sk k1 have "set (split_among e) \<subseteq> set (map fst b1)" by simp
  from split_loop_result [OF this ds, of app] obtain b2 where
    r2: "split_loop app (split_among e) b1 = Inr b2" and k2: "map fst b2 = map fst b1"
    and v2: "\<forall>p. balance_of b2 p
        = (if p \<in> set (split_among e) then fsub (balance_of b1 p) app else balance_of b1 p)"
    by blast
  have "\<forall>e\<in>set es. paid_by e \<noteq> [] \<and> split_among e \<noteq> []
      \<and> distinct (paid_by e) \<and> distinct (split_among e)
      \<and> set (paid_by e) \<subseteq> set (map fst b2) \<and> set (split_among e) \<subseteq> set (map fst b2)"
    using Cons.prems k1 k2 by simp
  from Cons.IH [OF this] obtain b' where
    r: "expense_loop es b2 = Inr b'" and k: "map fst b' = map fst b2"
    and v: "\<forall>p. balance_of b' p = fold (\<lambda>e v. post e p v) es (balance_of b2 p)"
    by blast
  have step: "balance_of b2 p = post e p (balance_of b p)" for p
    using v1 v2 by (simp add: post_def q_def app_def Let_def)
  have "expense_loop (e # es) b = Inr b'"
    using r1 r2 r sa by (simp add: truediv_def app_def)
  moreover have "map fst b' = map fst b" using k k1 k2 by simp
  moreover have "\<forall>p. balance_of b' p = fold (\<lambda>e v. post e p v) (e # es) (balance_of b p)"
    using v step by simp
  ultimately show ?case by blast
qed

lemma update_zero_values:
  fixes acc :: balances
  shows "\<forall>x\<in>set acc. snd x = Finite 0 \<Longrightarrow>
    \<forall>x\<in>set (AList.update k (Finite 0) acc). snd x = Finite 0"
  by (induction acc) auto

lemma fold_zero_values:
  fixes acc :: balances
  shows "\<forall>x\<in>set acc. snd x = Finite 0 \<Longrightarrow>
    \<forall>x\<in>set (fold (\<lambda>p b. AList.update p (Finite 0) b) ps acc). snd x = Finite 0"
proof (induction ps arbitrary: acc)
  case Nil
  then show ?case by simp
next
  case (Cons a ps)
  from Cons.IH [OF update_zero_values [OF Cons.prems, of a]] show ?case by simp
qed

lemma fold_update_key_set:
  fixes acc :: balances
  shows "fst ` set (fold (\<lambda>p b. AList.update p (Finite 0) b) ps acc) = fst ` set acc \<union> set ps"
proof (induction ps arbitrary: acc)
  case Nil
  then show ?case by simp
next
  case (Cons a ps)
  have "fst ` set (fold (\<lambda>p b. AList.update p (Finite 0) b) (a # ps) acc)
      = fst ` set (AList.update a (Finite 0) acc) \<union> set ps"
    using Cons.IH [of "AList.update a (Finite 0) acc"] by simp
  also have "\<dots> = fst ` set acc \<union> set (a # ps)"
    by (simp add: dom_update)
  finally show ?case .
qed

lemma fold_update_keys:
  fixes acc :: balances
  shows "distinct ps \<Longrightarrow> set ps \<inter> fst ` set acc = {} \<Longrightarrow>
   map fst (fold (\<lambda>p b. AList.update p (Finite 0) b) ps acc) = map fst acc @ ps"
proof (induction ps arbitrary: acc)
  case Nil
  then show ?case by simp
next
  case (Cons a ps)
  have fresh: "a \<notin> fst ` set acc" and rest: "a \<notin> set ps" "distinct ps"
    using Cons.prems by auto
  have keys: "map fst (AList.update a (Finite 0) acc) = map fst acc @ [a]"
    using fresh by (simp add: update_keys)
  have "set ps \<inter> fst ` set (AList.update a (Finite 0) acc) = {}"
    using Cons.prems rest by (auto simp: dom_update)
  from Cons.IH [OF rest(2) this] keys show ?case by simp
qed

lemma init_balances_zero: "\<forall>x\<in>set (init_balances ps). snd x = Finite 0"
  using fold_zero_values [of "[]" ps] by (simp add: init_balances_def)

lemma zero_values_balance: "\<forall>x\<in>set b. snd x = Finite 0 \<Longrightarrow> balance_of b p = Finite 0"
proof (cases "map_of b p")
  case None
  then show ?thesis by (simp add: balance_of_def)
next
  case (Some v)
  assume z: "\<forall>x\<in>set b. snd x = Finite 0"
  from Some have "(p, v) \<in> set b" by (rule map_of_SomeD)
  with z have "v = Finite 0" by auto
  with Some show ?thesis by (simp add: balance_of_def)
qed

lemma init_balances_key_set: "set (map fst (init_balances ps)) = set ps"
  using fold_update_key_set [of ps "[]"] by (simp add: init_balances_def)

lemma init_balances_keys: "distinct ps \<Longrightarrow> map fst (init_balances ps) = ps"
  using fold_update_keys [of ps "[]"] by (simp add: init_balances_def)

lemma calculate_balances_result:
  assumes known: "names_known st" and dup: "duplicate_free st"
  shows "\<exists>b. calculate_balances st = Inr b \<and> map fst b = participants st
     \<and> (\<forall>p. balance_of b p = accumulated (expenses st) p)"
proof -
  let ?b0 = "init_balances (participants st)"
  have "\<forall>e\<in>set (expenses st). paid_by e \<noteq> [] \<and> split_among e \<noteq> []
      \<and> distinct (paid_by e) \<and> distinct (split_among e)
      \<and> set (paid_by e) \<subseteq> set (map fst ?b0) \<and> set (split_among e) \<subseteq> set (map fst ?b0)"
    using known dup unfolding names_known_def duplicate_free_def init_balances_key_set by simp
  from expense_loop_result [OF this] obtain b where
    "expense_loop (expenses st) ?b0 = Inr b" "map fst b = map fst ?b0"
    "\<forall>p. balance_of b p = fold (\<lambda>e v. post e p v) (expenses st) (balance_of ?b0 p)"
    by blast
  then show ?thesis
    using zero_values_balance [OF init_balances_zero, of "participants st"] dup
    by (simp add: calculate_balances_def accumulated_def duplicate_free_def init_balances_keys)
qed

lemma balance_of_lookup:
  "p \<in> set (map fst b) \<Longrightarrow> map_of b p = Some (balance_of b p)"
  using known_key [of p b] by (auto simp: balance_of_def)

lemma post_untouched: "p \<notin> set (paid_by e) \<Longrightarrow> p \<notin> set (split_among e) \<Longrightarrow> post e p v = v"
  by (simp add: post_def)

lemma fold_post_untouched:
  "\<forall>e\<in>set es. p \<notin> set (paid_by e) \<and> p \<notin> set (split_among e) \<Longrightarrow>
   fold (\<lambda>e v. post e p v) es v = v"
  by (induction es arbitrary: v) (simp_all add: post_untouched)

text \<open>
  Claim C2, as stated: the balance of \<open>p\<close> is the sum of \<open>amount / |paid_by|\<close> over the
  expenses \<open>p\<close> paid for minus the sum of \<open>amount / |split_among|\<close> over the expenses \<open>p\<close>
  shares in. The balances are floats, added up expense by expense, and each addition
  rounds. Alice pays \<open>10^16\<close> for Bob, Bob pays 1 for Alice, Bob pays \<open>10^16\<close> for Alice:
  the 1 is lost when it is added to \<open>10^16\<close>, and \<open>calculate_balances\<close> returns 0 for
  both, where the formula gives \<open>-1\<close> for Alice and 1 for Bob.
\<close>

theorem calculate_balances_not_spec_formula:
  "names_known big_trip \<and> duplicate_free big_trip
   \<and> calculate_balances big_trip = Inr [(''Alice'', Finite 0), (''Bob'', Finite 0)]
   \<and> spec_balance (expenses big_trip) ''Alice'' = - 1
   \<and> spec_balance (expenses big_trip) ''Bob'' = 1"
proof -
  have k: "names_known big_trip" by (simp add: names_known_def big_trip_eq)
  have d: "duplicate_free big_trip" by (simp add: duplicate_free_def big_trip_eq)
  have c: "calculate_balances big_trip = Inr [(''Alice'', Finite 0), (''Bob'', Finite 0)]"
    by (simp add: big_trip_eq calculate_balances_def init_balances_def float_eval)
  have a: "spec_balance (expenses big_trip) ''Alice'' = - 1"
    by (simp add: spec_balance_def big_trip_eq)
  have b: "spec_balance (expenses big_trip) ''Bob'' = 1"
    by (simp add: spec_balance_def big_trip_eq)
  show ?thesis using k d c a b by simp
qed

text \<open>
  Claim C2, amended: when every expense's \<open>paid_by\<close> and \<open>split_among\<close> are non-empty
  subsets of the roster, \<open>calculate_balances\<close> returns a dictionary whose keys are exactly
  the roster, in roster order. The value for \<open>p\<close> is what float arithmetic makes of the
  formula when the expenses are taken in list order: starting from \<open>0.0\<close>, each expense
  \<open>p\<close> paid for adds \<open>amount / |paid_by|\<close> and then each expense \<open>p\<close> shares in subtracts
  \<open>amount / |split_among|\<close>, every quotient, sum and difference rounded to a float. A
  participant in no expense gets \<open>0.0\<close>. In scenario A the result is
  \<open>{Alice: 50.0, Bob: -50.0}\<close>.
\<close>

theorem calculate_balances_accumulates:
  "(names_known st \<and> duplicate_free st \<longrightarrow>
      (\<exists>b. calculate_balances st = Inr b \<and> map fst b = participants st
         \<and> (\<forall>p\<in>set (participants st). map_of b p = Some (accumulated (expenses st) p))
         \<and> (\<forall>p\<in>set (participants st).
              (\<forall>e\<in>set (expenses st). p \<notin> set (paid_by e) \<and> p \<notin> set (split_among e))
              \<longrightarrow> map_of b p = Some (Finite 0))))
   \<and> calculate_balances scenario_a = Inr [(''Alice'', Finite 50), (''Bob'', Finite (- 50))]"
proof -
  have general: "\<exists>b. calculate_balances st = Inr b \<and> map fst b = participants st
         \<and> (\<forall>p\<in>set (participants st). map_of b p = Some (accumulated (expenses st) p))
         \<and> (\<forall>p\<in>set (participants st).
              (\<forall>e\<in>set (expenses st). p \<notin> set (paid_by e) \<and> p \<notin> set (split_among e))
              \<longrightarrow> map_of b p = Some (Finite 0))"
    if known: "names_known st" and dup: "duplicate_free st"
  proof -
    from calculate_balances_result [OF known dup] obtain b where
      r: "calculate_balances st = Inr b"
      and keys: "map fst b = participants st"
      and v: "\<forall>p. balance_of b p = accumulated (expenses st) p"
      by blast
    have look: "map_of b p = Some (accumulated (expenses st) p)"
      if "p \<in> set (participants st)" for p
      using that keys balance_of_lookup [of p b] v by simp
    have untouched: "accumulated (expenses st) p = Finite 0"
      if "\<forall>e\<in>set (expenses st). p \<notin> set (paid_by e) \<and> p \<notin> set (split_among e)" for p
      using fold_post_untouched [OF that] by (simp add: accumulated_def)
    show ?thesis using r keys look untouched by auto
  qed
  have scenario:
    "calculate_balances scenario_a = Inr [(''Alice'', Finite 50), (''Bob'', Finite (- 50))]"
    by (simp add: scenario_a_eq calculate_balances_def init_balances_def float_eval)
  show ?thesis using general scenario by blast
qed

theorem calculate_balances_accumulates_witness:
  "names_known scenario_a \<and> duplicate_free scenario_a
   \<and> accumulated (expenses scenario_a) ''Alice'' = Finite 50
   \<and> accumulated (expenses scenario_a) ''Bob'' = Finite (- 50)
   \<and> (\<exists>b. calculate_balances scenario_a = Inr b \<and> map fst b = [''Alice'', ''Bob'']
        \<and> map_of b ''Alice'' = Some (Finite 50) \<and> map_of b ''Bob'' = Some (Finite (- 50)))"
proof -
  have k: "names_known scenario_a" by (simp add: names_known_def scenario_a_eq)
  have d: "duplicate_free scenario_a" by (simp add: duplicate_free_def scenario_a_eq)
  have a: "accumulated (expenses scenario_a) ''Alice'' = Finite 50"
    by (simp add: accumulated_def post_def scenario_a_eq float_eval)
  have b: "accumulated (expenses scenario_a) ''Bob'' = Finite (- 50)"
    by (simp add: accumulated_def post_def scenario_a_eq float_eval)
  show ?thesis
    using k d a b calculate_balances_accumulates [of scenario_a] by (auto simp: scenario_a_eq)
qed


subsection \<open>Settlement generation\<close>

lemma residue_balances:
  "calculate_balances residue_trip
     = Inr [(''Ann'', rnd (503 / 500)), (''Ben'', Finite 1), (''Cat'', Finite (- 1)),
            (''Dan'', fneg (rnd (7 / 500))), (''Eve'', fneg (rnd (124 / 125)))]"
  by (simp add: residue_trip_def calculate_balances_def init_balances_def float_eval)

text \<open>
  Claim C3, as stated: \<open>get_settlements\<close> equals the sweep in which every transfer
  \<open>min(remaining_debt, remaining_credit)\<close> is deducted from the debt and from the credit,
  recorded or not. Cat's payment leaves Ann a credit of 0.006. In the code Dan, who owes
  0.014, skips Ann without any deduction and pays Ben, recorded as 0.01; in the sweep as
  worded Dan's debt is first reduced by Ann's 0.006 to 0.008, under the threshold, and no
  payment by Dan is recorded.
\<close>

theorem get_settlements_not_spec_sweep:
  "calculate_balances residue_trip
     = Inr [(''Ann'', rnd (503 / 500)), (''Ben'', Finite 1), (''Cat'', Finite (- 1)),
            (''Dan'', fneg (rnd (7 / 500))), (''Eve'', fneg (rnd (124 / 125)))]
   \<and> get_settlements residue_trip
     = Inr [\<lparr>from_s = ''Cat'', to_s = ''Ann'', amount_s = Finite 1\<rparr>,
            \<lparr>from_s = ''Dan'', to_s = ''Ben'', amount_s = rnd (1 / 100)\<rparr>,
            \<lparr>from_s = ''Eve'', to_s = ''Ben'', amount_s = rnd (99 / 100)\<rparr>]
   \<and> spec_settlements (participants residue_trip)
        (balance_of [(''Ann'', rnd (503 / 500)), (''Ben'', Finite 1), (''Cat'', Finite (- 1)),
            (''Dan'', fneg (rnd (7 / 500))), (''Eve'', fneg (rnd (124 / 125)))])
     = [\<lparr>from_s = ''Cat'', to_s = ''Ann'', amount_s = Finite 1\<rparr>,
        \<lparr>from_s = ''Eve'', to_s = ''Ben'', amount_s = rnd (99 / 100)\<rparr>]"
proof -
  have code: "get_settlements residue_trip
     = Inr [\<lparr>from_s = ''Cat'', to_s = ''Ann'', amount_s = Finite 1\<rparr>,
            \<lparr>from_s = ''Dan'', to_s = ''Ben'', amount_s = rnd (1 / 100)\<rparr>,
            \<lparr>from_s = ''Eve'', to_s = ''Ben'', amount_s = rnd (99 / 100)\<rparr>]"
    by (simp add: get_settlements_def residue_balances settle_def creditor_loop.simps
        cent_eq float_eval)
  have spec: "spec_settlements (participants residue_trip)
        (balance_of [(''Ann'', rnd (503 / 500)), (''Ben'', Finite 1), (''Cat'', Finite (- 1)),
            (''Dan'', fneg (rnd (7 / 500))), (''Eve'', fneg (rnd (124 / 125)))])
     = [\<lparr>from_s = ''Cat'', to_s = ''Ann'', amount_s = Finite 1\<rparr>,
        \<lparr>from_s = ''Eve'', to_s = ''Ben'', amount_s = rnd (99 / 100)\<rparr>]"
    by (simp add: spec_settlements_def spec_debtors_def spec_creditors_def residue_trip_def
        balance_of_def cent_eq float_eval)
  show ?thesis using residue_balances code spec by simp
qed

text \<open>
  The loop leaves on \<open>remaining_debt <= 0.01\<close>, the sweep goes on while the remaining
  debt exceeds 0.01. The two tests differ only for a NaN, which is neither; with a NaN
  debt the loop runs to the end of the list and transfers nothing.
\<close>

lemma fle_not_flt: "fle a b \<Longrightarrow> \<not> flt b a"
  by (cases a; cases b) auto

lemma nan_debt_no_transfer:
  "\<not> fle rem cent \<Longrightarrow> \<not> flt cent rem \<Longrightarrow> \<not> flt cent (fmin rem credit)"
  by (cases rem; cases credit) (auto simp: cent_eq fmin_def)

lemma greedy_pay_done: "\<not> flt cent rem \<Longrightarrow> greedy_pay d rem cs = (cs, [])"
  by (cases cs) auto

text \<open>
  The loop over the index \<open>i\<close>, which overwrites \<open>creditors[i]\<close>, is the recursion over
  the rest of the list.
\<close>

lemma creditor_loop_greedy:
  "i \<le> length cs \<Longrightarrow>
   creditor_loop d i cs rem ss
     = (take i cs @ fst (greedy_pay d rem (drop i cs)), ss @ snd (greedy_pay d rem (drop i cs)))"
proof (induction d i cs rem ss rule: creditor_loop.induct)
  case (1 d i cs rem ss)
  show ?case
  proof (cases "i < length cs")
    case False
    with "1.prems" have "i = length cs" by simp
    then show ?thesis by (simp add: creditor_loop.simps)
  next
    case True
    obtain c credit where ci: "cs ! i = (c, credit)" by (cases "cs ! i")
    have dr: "drop i cs = (c, credit) # drop (Suc i) cs"
      using True ci by (simp add: Cons_nth_drop_Suc [symmetric])
    have tk: "take (Suc i) cs = take i cs @ [(c, credit)]"
      using True ci by (simp add: take_Suc_conv_app_nth)
    have whole: "take i cs @ (c, credit) # drop (Suc i) cs = cs"
      using append_take_drop_id [of i cs] dr by simp
    show ?thesis
    proof (cases "fle rem cent")
      case True
      then have "\<not> flt cent rem" by (rule fle_not_flt)
      with True show ?thesis
        using \<open>i < length cs\<close> ci dr whole by (simp add: creditor_loop.simps)
    next
      case False
      define t where "t = fmin rem credit"
      show ?thesis
      proof (cases "flt cent t")
        case True
        have over: "flt cent rem"
        proof (rule ccontr)
          assume "\<not> flt cent rem"
          from nan_debt_no_transfer [OF False this, of credit] True show False
            by (simp add: t_def)
        qed
        let ?cs' = "cs[i := (c, fsub credit t)]"
        have ih: "creditor_loop d (Suc i) ?cs' (fsub rem t)
            (ss @ [\<lparr>from_s = d, to_s = c, amount_s = round2 t\<rparr>])
          = (take (Suc i) ?cs' @ fst (greedy_pay d (fsub rem t) (drop (Suc i) ?cs')),
             (ss @ [\<lparr>from_s = d, to_s = c, amount_s = round2 t\<rparr>])
               @ snd (greedy_pay d (fsub rem t) (drop (Suc i) ?cs')))"
          using "1.IH"(1) [OF \<open>i < length cs\<close> refl ci [symmetric] False t_def True]
            \<open>i < length cs\<close> by simp
        have tk': "take (Suc i) ?cs' = take i cs @ [(c, fsub credit t)]"
          using \<open>i < length cs\<close> by (simp add: take_Suc_conv_app_nth)
        have dr': "drop (Suc i) ?cs' = drop (Suc i) cs" by simp
        show ?thesis
          using \<open>i < length cs\<close> ci dr False True over ih tk' dr'
          by (simp add: creditor_loop.simps [of d i cs] t_def [symmetric] Let_def
              split: prod.splits)
      next
        case nt: False
        have ih: "creditor_loop d (Suc i) cs rem ss
          = (take (Suc i) cs @ fst (greedy_pay d rem (drop (Suc i) cs)),
             ss @ snd (greedy_pay d rem (drop (Suc i) cs)))"
          using "1.IH"(2) [OF \<open>i < length cs\<close> refl ci [symmetric] False t_def nt]
            \<open>i < length cs\<close> by simp
        show ?thesis
        proof (cases "flt cent rem")
          case True
          then show ?thesis
            using \<open>i < length cs\<close> ci dr False nt ih tk
            by (simp add: creditor_loop.simps [of d i cs] t_def [symmetric] Let_def
                split: prod.splits)
        next
          case stop: False
          have "creditor_loop d i cs rem ss = (cs, ss)"
            using \<open>i < length cs\<close> ci False nt ih tk whole
              greedy_pay_done [OF stop, of d "drop (Suc i) cs"] append_take_drop_id [of "Suc i" cs]
            by (simp add: creditor_loop.simps [of d i cs] t_def [symmetric] Let_def)
          with stop dr whole show ?thesis by simp
        qed
      qed
    qed
  qed
qed

lemma debtor_loop_greedy: "debtor_loop ds cs ss = ss @ greedy_sweep ds cs"
proof (induction ds arbitrary: cs ss)
  case Nil
  then show ?case by simp
next
  case (Cons x ds)
  obtain d debt where x: "x = (d, debt)" by (cases x)
  show ?case
    using Cons.IH creditor_loop_greedy [of 0 cs d debt ss]
    by (simp add: x split: prod.splits)
qed

lemma pay_loop_keys: "pay_loop e ps b = Inr b' \<Longrightarrow> map fst b' = map fst b"
proof (induction ps arbitrary: b)
  case Nil
  then show ?case by simp
next
  case (Cons x ps)
  then obtain v q where v: "map_of b x = Some v"
    and r: "pay_loop e ps (AList.update x (fadd v q) b) = Inr b'"
    by (auto split: option.splits sum.splits)
  from Cons.IH [OF r] update_present_keys [OF v] show ?case by simp
qed

lemma split_loop_keys: "split_loop app ps b = Inr b' \<Longrightarrow> map fst b' = map fst b"
proof (induction ps arbitrary: b)
  case Nil
  then show ?case by simp
next
  case (Cons x ps)
  then obtain v where v: "map_of b x = Some v"
    and r: "split_loop app ps (AList.update x (fsub v app) b) = Inr b'"
    by (auto split: option.splits)
  from Cons.IH [OF r] update_present_keys [OF v] show ?case by simp
qed

lemma expense_loop_keys: "expense_loop es b = Inr b' \<Longrightarrow> map fst b' = map fst b"
proof (induction es arbitrary: b)
  case Nil
  then show ?case by simp
next
  case (Cons e es)
  then obtain app b1 b2 where "pay_loop e (paid_by e) b = Inr b1"
    and "split_loop app (split_among e) b1 = Inr b2" and "expense_loop es b2 = Inr b'"
    by (auto split: sum.splits)
  with Cons.IH [of b2] pay_loop_keys [of e "paid_by e" b b1]
    split_loop_keys [of app "split_among e" b1 b2]
  show ?case by simp
qed

lemma calculate_balances_keys:
  "distinct (participants st) \<Longrightarrow> calculate_balances st = Inr b \<Longrightarrow> map fst b = participants st"
  using expense_loop_keys [of "expenses st" "init_balances (participants st)" b]
  by (simp add: calculate_balances_def init_balances_keys)

lemma balance_of_entry:
  "distinct (map fst b) \<Longrightarrow> x \<in> set b \<Longrightarrow> balance_of b (fst x) = snd x"
  by (cases x) (simp add: balance_of_def)

lemma entries_by_key:
  assumes "distinct (map fst b)"
  shows "map (\<lambda>(p, a). (p, f a)) (filter (\<lambda>(p, a). P a) b)
    = map (\<lambda>p. (p, f (balance_of b p))) (filter (\<lambda>p. P (balance_of b p)) (map fst b))"
proof -
  have "filter (\<lambda>p. P (balance_of b p)) (map fst b)
      = map fst (filter (\<lambda>x. P (balance_of b (fst x))) b)"
    by (simp add: filter_map comp_def)
  also have "filter (\<lambda>x. P (balance_of b (fst x))) b = filter (\<lambda>(p, a). P a) b"
    using balance_of_entry [OF assms] by (intro filter_cong) (auto simp: case_prod_beta)
  finally have "map (\<lambda>p. (p, f (balance_of b p))) (filter (\<lambda>p. P (balance_of b p)) (map fst b))
      = map (\<lambda>x. (fst x, f (balance_of b (fst x)))) (filter (\<lambda>(p, a). P a) b)"
    by (simp add: comp_def)
  also have "\<dots> = map (\<lambda>(p, a). (p, f a)) (filter (\<lambda>(p, a). P a) b)"
    using balance_of_entry [OF assms] by (intro map_cong) (auto simp: case_prod_beta)
  finally show ?thesis by simp
qed

lemma settle_greedy:
  "distinct (map fst b) \<Longrightarrow> settle b = greedy_settlements (map fst b) (balance_of b)"
  using entries_by_key [of b "\<lambda>a. a" "\<lambda>a. flt cent a"]
    entries_by_key [of b "\<lambda>a. fneg a" "\<lambda>a. flt a (fneg cent)"]
  by (simp add: settle_def greedy_settlements_def spec_creditors_def spec_debtors_def
      debtor_loop_greedy)

text \<open>
  Claim C3, amended: for every balance mapping, \<open>get_settlements\<close> equals the greedy
  sweep of the claim (creditors above 0.01 and debtors below -0.01 in roster order,
  debtors processed left to right, creditors scanned in order while the remaining debt
  exceeds 0.01, records rounded to two places, credits consumed by earlier debtors not
  replenished) in which a transfer is made only when it exceeds 0.01: a smaller one is
  skipped, and neither the debt nor that creditor's credit is decremented. When
  \<open>calculate_balances\<close> raises, \<open>get_settlements\<close> raises the same error.
\<close>

theorem get_settlements_greedy:
  "distinct (participants st) \<Longrightarrow>
   (case calculate_balances st of
      Inl err \<Rightarrow> get_settlements st = Inl err
    | Inr b \<Rightarrow> map fst b = participants st
        \<and> get_settlements st = Inr (greedy_settlements (participants st) (balance_of b)))"
proof (cases "calculate_balances st")
  case (Inl err)
  then show ?thesis by (simp add: get_settlements_def)
next
  case (Inr b)
  assume d: "distinct (participants st)"
  from calculate_balances_keys [OF d Inr] have k: "map fst b = participants st" .
  with d settle_greedy [of b] Inr show ?thesis by (simp add: get_settlements_def)
qed

theorem get_settlements_greedy_witness:
  "distinct (participants residue_trip)
   \<and> get_settlements residue_trip
     = Inr (greedy_settlements (participants residue_trip)
         (balance_of [(''Ann'', rnd (503 / 500)), (''Ben'', Finite 1), (''Cat'', Finite (- 1)),
            (''Dan'', fneg (rnd (7 / 500))), (''Eve'', fneg (rnd (124 / 125)))]))
   \<and> distinct (participants bob_removed)
   \<and> get_settlements bob_removed = Inl ZeroDivisionError"
proof -
  have d: "distinct (participants residue_trip)" by (simp add: residue_trip_def)
  have d': "distinct (participants bob_removed)" by (simp add: bob_removed_eq)
  have z: "calculate_balances bob_removed = Inl ZeroDivisionError"
    by (simp add: bob_removed_eq calculate_balances_def init_balances_def truediv_def)
  from get_settlements_greedy [OF d]
  have g: "get_settlements residue_trip
     = Inr (greedy_settlements (participants residue_trip)
         (balance_of [(''Ann'', rnd (503 / 500)), (''Ben'', Finite 1), (''Cat'', Finite (- 1)),
            (''Dan'', fneg (rnd (7 / 500))), (''Eve'', fneg (rnd (124 / 125)))]))"
    unfolding residue_balances by simp
  from get_settlements_greedy [OF d'] have g': "get_settlements bob_removed = Inl ZeroDivisionError"
    unfolding z by simp
  show ?thesis using d d' g g' by simp
qed


subsection \<open>Rounding errors\<close>

lemma pow2_pos: "0 < pow2 e"
  by (simp add: pow2_def)

lemma pow2_Suc: "pow2 (e + 1) = 2 * pow2 e"
proof -
  consider "0 \<le> e" | "e = - 1" | "e < - 1" by linarith
  then show ?thesis
  proof cases
    case 1
    then show ?thesis by (simp add: pow2_def nat_add_distrib)
  next
    case 2
    then show ?thesis by (simp add: pow2_def)
  next
    case 3
    then have "nat (- e) = Suc (nat (- (e + 1)))" by simp
    with 3 show ?thesis by (simp add: pow2_def)
  qed
qed

lemma pow2_pred: "pow2 (e - 1) = pow2 e / 2"
  using pow2_Suc [of "e - 1"] by simp

lemma rhe_close: "\<bar>of_int (rhe y) - y\<bar> \<le> 1 / 2"
proof -
  define f where "f = \<lfloor>y\<rfloor>"
  define d where "d = y - of_int f"
  have d0: "0 \<le> d" and d1: "d < 1" unfolding d_def f_def by linarith+
  have y: "y = of_int f + d" unfolding d_def by simp
  show ?thesis
    unfolding rhe_def Let_def f_def [symmetric] d_def [symmetric]
    using d0 d1 by (auto simp: y abs_if)
qed

lemma pow2_53: "pow2 (- 53) = 1 / 2 ^ 53"
  by (simp add: pow2_def)

lemma pow2_1074: "pow2 (- 1074) = 2 * pow2 (- 1075)"
  using pow2_Suc [of "- 1075"] by simp

lemma rhe_scaled:
  "\<bar>of_int (rhe x) * pow2 e - x * pow2 e\<bar> \<le> pow2 e / 2"
proof -
  have "\<bar>of_int (rhe x) * pow2 e - x * pow2 e\<bar> = \<bar>of_int (rhe x) - x\<bar> * pow2 e"
    using pow2_pos [of e] by (simp add: abs_mult left_diff_distrib [symmetric])
  also have "\<dots> \<le> 1 / 2 * pow2 e"
    using rhe_close [of x] pow2_pos [of e] by (intro mult_right_mono) simp_all
  finally show ?thesis by simp
qed

lemma rhe_scaled_error:
  assumes "0 \<le> x" and "x < 2 ^ 52 \<longrightarrow> e = - 1074"
  shows "\<bar>of_int (rhe x) * pow2 e - x * pow2 e\<bar> \<le> x * pow2 e * pow2 (- 53) + pow2 (- 1075)"
proof (cases "x < 2 ^ 52")
  case True
  with assms have "pow2 e = 2 * pow2 (- 1075)" by (simp add: pow2_1074)
  moreover have "0 \<le> x * pow2 e * pow2 (- 53)"
    using assms(1) pow2_pos [of e] pow2_pos [of "- 53"] by simp
  ultimately show ?thesis using rhe_scaled [of x e] by linarith
next
  case False
  then have "1 / 2 \<le> x * pow2 (- 53)" by (simp add: pow2_53)
  then have "1 / 2 * pow2 e \<le> x * pow2 (- 53) * pow2 e"
    using pow2_pos [of e] by (intro mult_right_mono) simp_all
  moreover have "x * pow2 (- 53) * pow2 e = x * pow2 e * pow2 (- 53)" by simp
  moreover have "0 < pow2 (- 1075)" by (rule pow2_pos)
  ultimately show ?thesis using rhe_scaled [of x e] by linarith
qed

lemma scale_error:
  "0 \<le> x \<Longrightarrow> - 1074 \<le> e \<Longrightarrow> (x < 2 ^ 52 \<longrightarrow> e + 1074 \<le> int n) \<Longrightarrow>
   \<bar>scale n x e - x * pow2 e\<bar> \<le> x * pow2 e * pow2 (- 53) + pow2 (- 1075)"
proof (induction n arbitrary: x e)
  case 0
  then have "x < 2 ^ 52 \<longrightarrow> e = - 1074" by auto
  from rhe_scaled_error [OF "0.prems"(1) this] show ?case by simp
next
  case (Suc n)
  show ?case
  proof (cases "2 ^ 53 \<le> x")
    case True
    have "\<bar>scale n (x / 2) (e + 1) - x / 2 * pow2 (e + 1)\<bar>
        \<le> x / 2 * pow2 (e + 1) * pow2 (- 53) + pow2 (- 1075)"
      using True Suc.prems by (intro Suc.IH) simp_all
    with True show ?thesis by (simp add: pow2_Suc)
  next
    case False
    show ?thesis
    proof (cases "x < 2 ^ 52 \<and> - 1074 < e")
      case True
      have "\<bar>scale n (x * 2) (e - 1) - x * 2 * pow2 (e - 1)\<bar>
          \<le> x * 2 * pow2 (e - 1) * pow2 (- 53) + pow2 (- 1075)"
        using True Suc.prems by (intro Suc.IH) simp_all
      with True False show ?thesis by (simp add: pow2_pred)
    next
      case stop: False
      have eq: "scale (Suc n) x e = of_int (rhe x) * pow2 e"
        using False stop by auto
      from stop Suc.prems have "x < 2 ^ 52 \<longrightarrow> e = - 1074" by auto
      from rhe_scaled_error [OF Suc.prems(1) this] eq show ?thesis by simp
    qed
  qed
qed

lemma rnd_error:
  assumes "\<bar>x\<bar> \<le> 2 ^ 1000"
  shows "\<exists>y. rnd x = Finite y \<and> \<bar>y - x\<bar> \<le> \<bar>x\<bar> * pow2 (- 53) + pow2 (- 1075)"
proof (cases "x = 0")
  case True
  then show ?thesis using pow2_pos [of "- 1075"] by (simp add: rnd_def)
next
  case False
  define y where "y = scale 2200 \<bar>x\<bar> 0"
  have e: "\<bar>y - \<bar>x\<bar>\<bar> \<le> \<bar>x\<bar> * pow2 (- 53) + pow2 (- 1075)"
    using scale_error [of "\<bar>x\<bar>" 0 2200] by (simp add: y_def pow2_def)
  have p53: "pow2 (- 53) \<le> 1" by (simp add: pow2_53)
  have p1075: "pow2 (- 1075) \<le> 1"
    unfolding pow2_def by (simp add: power_le_one divide_le_eq)
  have "\<bar>x\<bar> * pow2 (- 53) \<le> \<bar>x\<bar> * 1" using p53 by (intro mult_left_mono) simp_all
  with e p1075 have "y \<le> 2 * \<bar>x\<bar> + 1" by linarith
  also have "\<dots> \<le> 2 * 2 ^ 1000 + 1" using assms by simp
  also have "\<dots> < (2::real) ^ 1024"
  proof -
    have "(2::real) ^ 1024 = 2 ^ 1000 * 2 ^ 24" by (simp add: power_add [symmetric])
    moreover have "(1::real) \<le> 2 ^ 1000" by simp
    ultimately show ?thesis by simp
  qed
  finally have small: "\<not> 2 ^ 1024 \<le> y" by simp
  show ?thesis
  proof (cases "x < 0")
    case True
    with False small have "rnd x = Finite (- y)" by (simp add: rnd_def y_def Let_def)
    with e True show ?thesis by simp
  next
    case pos: False
    with False small have "rnd x = Finite y" by (simp add: rnd_def y_def Let_def)
    with e pos show ?thesis by simp
  qed
qed



lemma pow2_1075_le: "pow2 (- 1075) \<le> 1 / 2 ^ 53"
proof -
  have "(2::real) ^ 53 \<le> 2 ^ 1075" by (intro power_increasing) simp_all
  then have "1 / (2::real) ^ 1075 \<le> 1 / 2 ^ 53" by (intro divide_left_mono) simp_all
  then show ?thesis unfolding pow2_def by simp
qed

lemma pow2_1000: "pow2 1000 = 2 ^ 1000"
  by (simp add: pow2_def)

lemma pow2_1000_large: "10 ^ 15 \<le> pow2 1000"
proof -
  have "(10::real) ^ 15 \<le> 2 ^ 50" by simp
  also have "\<dots> \<le> 2 ^ 1000" by (intro power_increasing) simp_all
  finally show ?thesis by (simp only: pow2_1000)
qed

text \<open>
  The error of one rounding: at most \<open>2^-53\<close> of the magnitude, plus \<open>2^-1075\<close> for a
  result in the subnormal range. No overflow occurs below \<open>2^1000\<close>.
\<close>

lemma rnd_near:
  assumes "\<bar>x\<bar> \<le> G" and "G \<le> pow2 1000"
  shows "\<exists>y. rnd x = Finite y \<and> \<bar>y - x\<bar> \<le> G / 2 ^ 53 + pow2 (- 1075)"
proof -
  from assms have "\<bar>x\<bar> \<le> 2 ^ 1000" unfolding pow2_1000 by linarith
  from rnd_error [OF this] obtain y where y: "rnd x = Finite y"
    and e: "\<bar>y - x\<bar> \<le> \<bar>x\<bar> * pow2 (- 53) + pow2 (- 1075)" by blast
  have "\<bar>x\<bar> * pow2 (- 53) \<le> G * pow2 (- 53)"
    using assms(1) pow2_pos [of "- 53"] by (intro mult_right_mono) simp_all
  with y e show ?thesis by (simp add: pow2_53)
qed

lemma quotient_error:
  assumes "\<bar>a\<bar> \<le> A" and "A \<le> pow2 1000" and "0 < n"
  shows "\<exists>q. quotient (Finite a) n = Finite q
    \<and> \<bar>q - a / real n\<bar> \<le> A / 2 ^ 53 + pow2 (- 1075)"
proof -
  have "1 \<le> real n" using assms(3) by simp
  then have "\<bar>a\<bar> / real n \<le> \<bar>a\<bar> / 1" using assms(3) by (intro divide_left_mono) simp_all
  then have "\<bar>a / real n\<bar> \<le> A" using assms(1) by simp
  from rnd_near [OF this assms(2)] show ?thesis by (simp add: quotient_def)
qed

lemma fadd_error:
  assumes "\<bar>w + q\<bar> \<le> G" and "G \<le> pow2 1000"
  shows "\<exists>z. fadd (Finite w) (Finite q) = Finite z
    \<and> \<bar>z - (w + q)\<bar> \<le> G / 2 ^ 53 + pow2 (- 1075)"
  using rnd_near [OF assms] by simp

lemma fsub_error:
  assumes "\<bar>w - q\<bar> \<le> G" and "G \<le> pow2 1000"
  shows "\<exists>z. fsub (Finite w) (Finite q) = Finite z
    \<and> \<bar>z - (w - q)\<bar> \<le> G / 2 ^ 53 + pow2 (- 1075)"
  using fadd_error [of w "- q" G] assms by (simp add: fsub_def)

text \<open>One expense, applied to the balance of one participant.\<close>

lemma post_error:
  assumes am: "amount e = Finite a" and aA: "\<bar>a\<bar> \<le> A"
    and pb: "paid_by e \<noteq> []" and sa: "split_among e \<noteq> []"
    and wW: "\<bar>w\<bar> \<le> W"
    and G: "2 * W + 5 * A + 5 \<le> pow2 1000"
  shows "\<exists>w'. post e p (Finite w) = Finite w'
    \<and> \<bar>w' - (w + net_share e p)\<bar>
        \<le> 2 * (A / 2 ^ 53 + pow2 (- 1075)) + 2 * ((2 * W + 5 * A + 5) / 2 ^ 53 + pow2 (- 1075))"
proof -
  define \<eta> where "\<eta> = pow2 (- 1075)"
  define G where "G = 2 * W + 5 * A + 5"
  have \<eta>0: "0 < \<eta>" and \<eta>1: "\<eta> \<le> 1 / 2 ^ 53"
    unfolding \<eta>_def by (rule pow2_pos, rule pow2_1075_le)
  have A0: "0 \<le> A" using aA by linarith
  have W0: "0 \<le> W" using wW by linarith
  have GP: "G \<le> pow2 1000" using G by (simp add: G_def)
  have AP: "A \<le> pow2 1000" using GP A0 W0 by (simp add: G_def)
  define ra where "ra = A / 2 ^ 53 + \<eta>"
  define rg where "rg = G / 2 ^ 53 + \<eta>"
  define cp where "cp = a / real (length (paid_by e))"
  define cs where "cs = a / real (length (split_among e))"
  from quotient_error [OF aA AP, of "length (paid_by e)"] pb obtain qp where
    qp: "quotient (Finite a) (length (paid_by e)) = Finite qp"
    and ep: "\<bar>qp - cp\<bar> \<le> ra"
    unfolding \<eta>_def cp_def ra_def by auto
  from quotient_error [OF aA AP, of "length (split_among e)"] sa obtain qs where
    qs: "quotient (Finite a) (length (split_among e)) = Finite qs"
    and es: "\<bar>qs - cs\<bar> \<le> ra"
    unfolding \<eta>_def cs_def ra_def by auto
  have "\<bar>a\<bar> / real (length (paid_by e)) \<le> \<bar>a\<bar> / 1"
    using pb by (intro divide_left_mono) (simp_all add: Suc_le_eq)
  then have sp: "\<bar>cp\<bar> \<le> A" using aA by (simp add: cp_def)
  have "\<bar>a\<bar> / real (length (split_among e)) \<le> \<bar>a\<bar> / 1"
    using sa by (intro divide_left_mono) (simp_all add: Suc_le_eq)
  then have ss: "\<bar>cs\<bar> \<le> A" using aA by (simp add: cs_def)
  have G0: "0 \<le> G / 2 ^ 53" using A0 W0 by (simp add: G_def)
  have ra0: "0 \<le> ra" using A0 \<eta>0 by (simp add: ra_def)
  have rg0: "0 \<le> rg" using G0 \<eta>0 by (simp add: rg_def)
  have Gq: "G / 2 ^ 53 \<le> W / 2 + 5 * A / 4 + 5 / 4"
  proof -
    have "0 \<le> G" using A0 W0 by (simp add: G_def)
    then have "G / 2 ^ 53 \<le> G / 4" by (intro divide_left_mono) simp_all
    then show ?thesis by (simp add: G_def)
  qed
  have Aq: "A / 2 ^ 53 \<le> A / 4" using A0 by (intro divide_left_mono) simp_all
  have \<eta>2: "\<eta> \<le> 1" using \<eta>1 by (simp add: field_simps)
  have ra1: "ra \<le> A / 4 + 1" using Aq \<eta>2 by (simp add: ra_def)
  have rg1: "rg \<le> W / 2 + 5 * A / 4 + 9 / 4" using Gq \<eta>2 by (simp add: rg_def)
  define x1 where "x1 = w + (if p \<in> set (paid_by e) then cp else 0)"
  have "\<exists>w1. (if p \<in> set (paid_by e) then fadd (Finite w) (Finite qp) else Finite w) = Finite w1
      \<and> \<bar>w1 - x1\<bar> \<le> ra + rg
      \<and> \<bar>w1\<bar> \<le> W + A + ra + rg"
  proof (cases "p \<in> set (paid_by e)")
    case True
    have "\<bar>w + qp\<bar> \<le> G" using wW ep sp ra1 A0 W0 unfolding G_def by linarith
    from fadd_error [OF this GP] obtain z where z: "fadd (Finite w) (Finite qp) = Finite z"
      and ez: "\<bar>z - (w + qp)\<bar> \<le> rg" unfolding \<eta>_def rg_def by blast
    have x1': "x1 = w + cp" using True by (simp add: x1_def)
    have "\<bar>z - x1\<bar> \<le> ra + rg"
      using ez ep unfolding x1' by linarith
    moreover have "\<bar>z\<bar> \<le> W + A + ra + rg"
      using ez ep sp wW by linarith
    ultimately show ?thesis using True z by simp
  next
    case False
    have x1': "x1 = w" using False by (simp add: x1_def)
    have "\<bar>w - x1\<bar> \<le> ra + rg"
      using ra0 rg0 unfolding x1' by simp
    moreover have "\<bar>w\<bar> \<le> W + A + ra + rg"
      using ra0 rg0 wW A0 by linarith
    ultimately show ?thesis using False by simp
  qed
  then obtain w1 where
    w1: "(if p \<in> set (paid_by e) then fadd (Finite w) (Finite qp) else Finite w) = Finite w1"
    and e1: "\<bar>w1 - x1\<bar> \<le> ra + rg"
    and m1: "\<bar>w1\<bar> \<le> W + A + ra + rg" by blast
  define x2 where "x2 = w + net_share e p"
  have x2: "x2 = x1 - (if p \<in> set (split_among e) then cs else 0)"
    by (simp add: x2_def net_share_def x1_def am cp_def cs_def)
  have "\<exists>w2. (if p \<in> set (split_among e) then fsub (Finite w1) (Finite qs) else Finite w1)
        = Finite w2
      \<and> \<bar>w2 - x2\<bar> \<le> 2 * ra + 2 * rg"
  proof (cases "p \<in> set (split_among e)")
    case True
    have "\<bar>w1\<bar> \<le> 3 * W / 2 + 5 * A / 2 + 13 / 4" using m1 ra1 rg1 by linarith
    moreover have "\<bar>qs\<bar> \<le> 5 * A / 4 + 1" using es ss ra1 by linarith
    ultimately have "\<bar>w1 - qs\<bar> \<le> G" using A0 W0 unfolding G_def by linarith
    from fsub_error [OF this GP] obtain z where z: "fsub (Finite w1) (Finite qs) = Finite z"
      and ez: "\<bar>z - (w1 - qs)\<bar> \<le> rg" unfolding \<eta>_def rg_def by blast
    have x2': "x2 = x1 - cs" using True by (simp add: x2)
    have "\<bar>z - (x1 - qs)\<bar> \<le> ra + 2 * rg"
      using ez e1 by linarith
    then have "\<bar>z - x2\<bar> \<le> 2 * ra + 2 * rg"
      using es unfolding x2' by linarith
    then show ?thesis using True z by simp
  next
    case False
    have x2': "x2 = x1" using False by (simp add: x2)
    have "\<bar>w1 - x2\<bar> \<le> 2 * ra + 2 * rg"
      using e1 ra0 rg0 unfolding x2' by linarith
    then show ?thesis using False by simp
  qed
  then obtain w2 where
    w2: "(if p \<in> set (split_among e) then fsub (Finite w1) (Finite qs) else Finite w1) = Finite w2"
    and e2: "\<bar>w2 - x2\<bar> \<le> 2 * ra + 2 * rg"
    by blast
  have "post e p (Finite w) = Finite w2"
    using w1 w2 qp qs by (simp add: post_def am Let_def split: if_splits)
  with e2 show ?thesis unfolding \<eta>_def G_def x2_def ra_def rg_def by blast
qed


lemma net_share_bound:
  assumes "\<bar>value_of (amount e)\<bar> \<le> A" and "paid_by e \<noteq> []" and "split_among e \<noteq> []"
  shows "\<bar>net_share e p\<bar> \<le> 2 * A"
proof -
  define a where "a = value_of (amount e)"
  have A0: "0 \<le> A" using assms(1) by linarith
  have "\<bar>a\<bar> / real (length (paid_by e)) \<le> \<bar>a\<bar> / 1"
    using assms(2) by (intro divide_left_mono) (simp_all add: Suc_le_eq)
  then have p: "\<bar>a / real (length (paid_by e))\<bar> \<le> A" using assms(1) by (simp add: a_def)
  have "\<bar>a\<bar> / real (length (split_among e)) \<le> \<bar>a\<bar> / 1"
    using assms(3) by (intro divide_left_mono) (simp_all add: Suc_le_eq)
  then have s: "\<bar>a / real (length (split_among e))\<bar> \<le> A" using assms(1) by (simp add: a_def)
  show ?thesis
    unfolding net_share_def a_def [symmetric] using p s A0 by (auto simp: abs_if split: if_splits)
qed

text \<open>
  The whole loop, for one participant: after \<open>k\<close> expenses the float balance is within
  \<open>k * \<delta>\<close> of the real one, as long as the magnitudes stay below \<open>M\<close>.
\<close>

lemma fold_post_error:
  assumes step: "2 * (A / 2 ^ 53 + pow2 (- 1075))
      + 2 * ((2 * M + 5 * A + 5) / 2 ^ 53 + pow2 (- 1075)) \<le> \<delta>"
    and big: "2 * M + 5 * A + 5 \<le> pow2 1000"
    and A0: "0 \<le> A" and d0: "0 \<le> \<delta>"
  shows "\<forall>e\<in>set es. is_finite (amount e) \<and> \<bar>value_of (amount e)\<bar> \<le> A
        \<and> paid_by e \<noteq> [] \<and> split_among e \<noteq> [] \<Longrightarrow>
    real (k + length es) * (2 * A + \<delta>) \<le> M \<Longrightarrow>
    \<bar>w - x\<bar> \<le> real k * \<delta> \<Longrightarrow> \<bar>x\<bar> \<le> real k * (2 * A) \<Longrightarrow>
    \<exists>w'. fold (\<lambda>e v. post e p v) es (Finite w) = Finite w'
      \<and> \<bar>w' - (x + (\<Sum>e\<leftarrow>es. net_share e p))\<bar> \<le> real (k + length es) * \<delta>"
proof (induction es arbitrary: k w x)
  case Nil
  then show ?case by simp
next
  case (Cons e es)
  from Cons.prems(1) have fin: "is_finite (amount e)"
    and aA': "\<bar>value_of (amount e)\<bar> \<le> A"
    and pb: "paid_by e \<noteq> []" and sa: "split_among e \<noteq> []"
    and rest: "\<forall>e\<in>set es. is_finite (amount e) \<and> \<bar>value_of (amount e)\<bar> \<le> A
        \<and> paid_by e \<noteq> [] \<and> split_among e \<noteq> []"
    by simp_all
  from fin obtain a where am: "amount e = Finite a" by (cases "amount e") simp_all
  with aA' have aA: "\<bar>a\<bar> \<le> A" by simp
  define kd where "kd = real k * \<delta>"
  define ka where "ka = real k * (2 * A)"
  define net where "net = net_share e p"
  have "real k * (2 * A + \<delta>) \<le> real (k + length (e # es)) * (2 * A + \<delta>)"
    using A0 d0 by (intro mult_right_mono) simp_all
  also note Cons.prems(2)
  finally have "ka + kd \<le> M" by (simp add: ka_def kd_def algebra_simps)
  moreover have "\<bar>w - x\<bar> \<le> kd" "\<bar>x\<bar> \<le> ka"
    using Cons.prems(3,4) by (simp_all add: kd_def ka_def)
  ultimately have wM: "\<bar>w\<bar> \<le> M" by linarith
  from post_error [OF am aA pb sa wM big, of p] step obtain w1 where
    p1: "post e p (Finite w) = Finite w1" and e1: "\<bar>w1 - (w + net)\<bar> \<le> \<delta>"
    unfolding net_def by fastforce
  have nb: "\<bar>net\<bar> \<le> 2 * A" unfolding net_def using aA' pb sa by (rule net_share_bound)
  have sk: "real (Suc k) * \<delta> = kd + \<delta>" "real (Suc k) * (2 * A) = ka + 2 * A"
    by (simp_all add: kd_def ka_def algebra_simps)
  have n1: "\<bar>w1 - (x + net)\<bar> \<le> real (Suc k) * \<delta>"
    using e1 \<open>\<bar>w - x\<bar> \<le> kd\<close> unfolding sk by linarith
  have n2: "\<bar>x + net\<bar> \<le> real (Suc k) * (2 * A)"
    using nb \<open>\<bar>x\<bar> \<le> ka\<close> unfolding sk by linarith
  have room: "real (Suc k + length es) * (2 * A + \<delta>) \<le> M"
    using Cons.prems(2) by simp
  from Cons.IH [OF rest room n1 n2] obtain w' where
    f: "fold (\<lambda>e v. post e p v) es (Finite w1) = Finite w'"
    and e: "\<bar>w' - (x + net + (\<Sum>e\<leftarrow>es. net_share e p))\<bar> \<le> real (Suc k + length es) * \<delta>"
    by blast
  have "fold (\<lambda>e v. post e p v) (e # es) (Finite w) = Finite w'" using p1 f by simp
  moreover have "\<bar>w' - (x + (\<Sum>e\<leftarrow>e # es. net_share e p))\<bar> \<le> real (k + length (e # es)) * \<delta>"
    using e by (simp add: net_def add.assoc)
  ultimately show ?case by blast
qed

text \<open>
  With \<open>E\<close> expenses of magnitude at most \<open>A\<close>, the error of a balance is at most
  \<open>E * 16 * (E + 2) * (A + 1) / 2^53\<close>.
\<close>

lemma accumulated_error:
  assumes all: "\<forall>e\<in>set es. is_finite (amount e) \<and> \<bar>value_of (amount e)\<bar> \<le> A
        \<and> paid_by e \<noteq> [] \<and> split_among e \<noteq> []"
    and A0: "0 \<le> A"
    and size: "real (length es) * ((real (length es) + 2) * (A + 1)) \<le> 5 * 10 ^ 12"
  shows "\<exists>w. accumulated es p = Finite w
    \<and> \<bar>w - (\<Sum>e\<leftarrow>es. net_share e p)\<bar>
        \<le> real (length es) * (16 * ((real (length es) + 2) * (A + 1)) / 2 ^ 53)"
proof (cases "es = []")
  case True
  then show ?thesis by (simp add: accumulated_def)
next
  case False
  define E where "E = real (length es)"
  define P where "P = (E + 2) * (A + 1)"
  define EA where "EA = E * A"
  define EP where "EP = E * P"
  define \<delta> where "\<delta> = 16 * P / 2 ^ 53"
  define M where "M = E * (2 * A + \<delta>)"
  define \<eta> where "\<eta> = pow2 (- 1075)"
  have E1: "1 \<le> E" using False by (cases es) (simp_all add: E_def)
  have EA0: "0 \<le> EA" using E1 A0 by (simp add: EA_def)
  have P: "P = EA + E + 2 * A + 2" by (simp add: P_def EA_def algebra_simps)
  have EPs: "EP \<le> 5 * 10 ^ 12" using size by (simp add: EP_def P_def E_def)
  have "1 * P \<le> E * P" using E1 EA0 A0 P by (intro mult_right_mono) linarith+
  then have PE: "P \<le> EP" by (simp add: EP_def)
  have "E * A \<le> E * P" using E1 EA0 A0 P by (intro mult_left_mono) linarith+
  then have EAP: "EA \<le> EP" by (simp add: EA_def EP_def)
  have M: "M = 2 * EA + 16 * EP / 2 ^ 53"
    by (simp add: M_def \<delta>_def EA_def EP_def algebra_simps)
  have \<eta>0: "0 < \<eta>" and \<eta>1: "\<eta> \<le> 1 / 2 ^ 53"
    unfolding \<eta>_def by (rule pow2_pos, rule pow2_1075_le)
  have d0: "0 \<le> \<delta>" using P EA0 E1 A0 by (simp add: \<delta>_def)
  have step: "2 * (A / 2 ^ 53 + \<eta>) + 2 * ((2 * M + 5 * A + 5) / 2 ^ 53 + \<eta>) \<le> \<delta>"
    unfolding M \<delta>_def P using EPs EA0 E1 A0 \<eta>1 by (simp add: field_simps)
  have big: "2 * M + 5 * A + 5 \<le> pow2 1000"
  proof -
    have "A \<le> P" using P EA0 E1 A0 by linarith
    then have "2 * M + 5 * A + 5 \<le> 10 ^ 15" unfolding M using EPs EAP PE by simp
    with pow2_1000_large show ?thesis by linarith
  qed
  have room: "real (0 + length es) * (2 * A + \<delta>) \<le> M" by (simp add: M_def E_def)
  from fold_post_error [OF step [unfolded \<eta>_def] big A0 d0 all room, of 0 0 p]
  obtain w where "fold (\<lambda>e v. post e p v) es (Finite 0) = Finite w"
    and "\<bar>w - (\<Sum>e\<leftarrow>es. net_share e p)\<bar> \<le> real (length es) * \<delta>" by auto
  then show ?thesis unfolding accumulated_def \<delta>_def P_def E_def by blast
qed


subsection \<open>Conservation\<close>

lemma alice_removed_eq:
  "alice_removed = \<lparr>trip_name = [], participants = [''Bob''],
     expenses = [\<lparr>id_no = 1, description = ''Taxi'', amount = Finite 100, paid_by = [],
       split_among = [''Bob''], category = ''General'', date = ''2024-05-01 10:00''\<rparr>]\<rparr>"
  by (simp add: alice_removed_def remove_participant_def drop_name_def taxi_trip_eq)

text \<open>
  Claim C5, as stated: for every expense list over a roster that contains the names it
  mentions, the balances sum to zero within 0.01. An expense that has lost its payer
  still charges its beneficiaries: Bob is left with \<open>-100\<close> and nobody with \<open>+100\<close>. And
  with every name in place, rounding alone can exceed the tolerance: when Ann pays
  \<open>10^15\<close> for three, the three balances sum to an eighth.
\<close>

theorem balances_not_conserved:
  "calculate_balances alice_removed = Inr [(''Bob'', Finite (- 100))]
   \<and> \<not> conserved [(''Bob'', Finite (- 100))]
   \<and> names_known thirds_trip \<and> duplicate_free thirds_trip
   \<and> calculate_balances thirds_trip
       = Inr [(''Ann'', Finite (2666666666666667 / 4)),
              (''Ben'', Finite (- (5333333333333333 / 16))),
              (''Cat'', Finite (- (5333333333333333 / 16)))]
   \<and> \<not> conserved [(''Ann'', Finite (2666666666666667 / 4)),
              (''Ben'', Finite (- (5333333333333333 / 16))),
              (''Cat'', Finite (- (5333333333333333 / 16)))]"
proof -
  have a: "calculate_balances alice_removed = Inr [(''Bob'', Finite (- 100))]"
    by (simp add: alice_removed_eq calculate_balances_def init_balances_def float_eval)
  have b: "\<not> conserved [(''Bob'', Finite (- 100))]" by (simp add: conserved_def)
  have k: "names_known thirds_trip" by (simp add: names_known_def thirds_trip_def)
  have d: "duplicate_free thirds_trip" by (simp add: duplicate_free_def thirds_trip_def)
  have c: "calculate_balances thirds_trip
       = Inr [(''Ann'', Finite (2666666666666667 / 4)),
              (''Ben'', Finite (- (5333333333333333 / 16))),
              (''Cat'', Finite (- (5333333333333333 / 16)))]"
    by (simp add: thirds_trip_def calculate_balances_def init_balances_def float_eval)
  have e: "\<not> conserved [(''Ann'', Finite (2666666666666667 / 4)),
              (''Ben'', Finite (- (5333333333333333 / 16))),
              (''Cat'', Finite (- (5333333333333333 / 16)))]"
    by (simp add: conserved_def)
  show ?thesis using a b k d c e by simp
qed

lemma indicator_sum:
  assumes "distinct roster" and "distinct xs" and "set xs \<subseteq> set roster"
  shows "(\<Sum>p\<leftarrow>roster. if p \<in> set xs then c else 0) = real (length xs) * (c::real)"
proof -
  have "(\<Sum>p\<leftarrow>roster. if p \<in> set xs then c else 0)
      = (\<Sum>p\<in>set roster. if p \<in> set xs then c else 0)"
    using assms(1) by (simp add: sum_list_distinct_conv_sum_set)
  also have "\<dots> = (\<Sum>p\<in>set roster \<inter> set xs. c)"
    using sum.inter_restrict [of "set roster" "\<lambda>p. c" "set xs"] by simp
  also have "set roster \<inter> set xs = set xs" using assms(3) by auto
  also have "(\<Sum>p\<in>set xs. c) = real (length xs) * c"
    using assms(2) by (simp add: distinct_card)
  finally show ?thesis .
qed

lemma net_share_sum_roster:
  assumes "distinct roster"
    and "distinct (paid_by e)" and "distinct (split_among e)"
    and "set (paid_by e) \<subseteq> set roster" and "set (split_among e) \<subseteq> set roster"
    and "paid_by e \<noteq> []" and "split_among e \<noteq> []"
  shows "(\<Sum>p\<leftarrow>roster. net_share e p) = 0"
proof -
  define a where "a = value_of (amount e)"
  have "(\<Sum>p\<leftarrow>roster. net_share e p)
      = (\<Sum>p\<leftarrow>roster. if p \<in> set (paid_by e) then a / real (length (paid_by e)) else 0)
        - (\<Sum>p\<leftarrow>roster. if p \<in> set (split_among e) then a / real (length (split_among e)) else 0)"
    unfolding net_share_def a_def by (simp add: sum_list_subtractf)
  also have "\<dots> = real (length (paid_by e)) * (a / real (length (paid_by e)))
        - real (length (split_among e)) * (a / real (length (split_among e)))"
    using assms by (simp add: indicator_sum)
  also have "\<dots> = 0" using assms(6,7) by simp
  finally show ?thesis .
qed

lemma net_share_sum_zero:
  assumes "distinct roster"
  shows "\<forall>e\<in>set es. distinct (paid_by e) \<and> distinct (split_among e)
        \<and> set (paid_by e) \<subseteq> set roster \<and> set (split_among e) \<subseteq> set roster
        \<and> paid_by e \<noteq> [] \<and> split_among e \<noteq> [] \<Longrightarrow>
    (\<Sum>p\<leftarrow>roster. \<Sum>e\<leftarrow>es. net_share e p) = 0"
proof (induction es)
  case Nil
  then show ?case by simp
next
  case (Cons e es)
  have "(\<Sum>p\<leftarrow>roster. \<Sum>e\<leftarrow>e # es. net_share e p)
      = (\<Sum>p\<leftarrow>roster. net_share e p) + (\<Sum>p\<leftarrow>roster. \<Sum>e\<leftarrow>es. net_share e p)"
    by (simp add: sum_list_addf)
  also have "(\<Sum>p\<leftarrow>roster. net_share e p) = 0"
    using assms Cons.prems by (intro net_share_sum_roster) simp_all
  also have "(\<Sum>p\<leftarrow>roster. \<Sum>e\<leftarrow>es. net_share e p) = 0"
    using Cons.prems by (intro Cons.IH) simp
  finally show ?case by simp
qed

lemma sum_list_abs_bound:
  fixes f :: "'a \<Rightarrow> real"
  shows "\<forall>x\<in>set xs. \<bar>f x\<bar> \<le> c \<Longrightarrow> \<bar>\<Sum>x\<leftarrow>xs. f x\<bar> \<le> real (length xs) * c"
proof (induction xs)
  case Nil
  then show ?case by simp
next
  case (Cons x xs)
  then have "\<bar>f x\<bar> \<le> c" and "\<bar>\<Sum>x\<leftarrow>xs. f x\<bar> \<le> real (length xs) * c" by simp_all
  then show ?case by (simp add: algebra_simps)
qed

lemma values_by_key:
  assumes "distinct (map fst b)"
  shows "map snd b = map (balance_of b) (map fst b)"
  using balance_of_entry [OF assms] by (simp add: map_eq_conv)


text \<open>
  Claim C5, amended: for every expense list in which every expense has a non-empty
  \<open>paid_by\<close> and a non-empty \<open>split_among\<close>, both without repetition and drawn from a
  roster without repetition, and whose amounts are numbers of magnitude at most \<open>A\<close>,
  with \<open>n\<close> participants and \<open>E\<close> expenses such that
  \<open>n * E * (E + 2) * (A + 1) \<le> 5 * 10^12\<close>: \<open>calculate_balances\<close> returns balances that
  are numbers and whose sum is within 0.01 of zero.
\<close>

theorem balances_conserved:
  assumes known: "names_known st" and dup: "duplicate_free st" and am: "amounts_within A st"
    and size: "real (length (participants st)) * real (length (expenses st))
        * (real (length (expenses st)) + 2) * (A + 1) \<le> 5 * 10 ^ 12"
  shows "\<exists>b. calculate_balances st = Inr b \<and> map fst b = participants st \<and> conserved b"
proof -
  define ps where "ps = participants st"
  define es where "es = expenses st"
  from calculate_balances_result [OF known dup] obtain b where
    r: "calculate_balances st = Inr b" and keys: "map fst b = ps"
    and v: "\<forall>p. balance_of b p = accumulated es p"
    unfolding ps_def es_def by blast
  have dps: "distinct ps" using dup by (simp add: duplicate_free_def ps_def)
  have dk: "distinct (map fst b)" using keys dps by simp
  have entry: "snd x = accumulated es (fst x)" if "x \<in> set b" for x
    using balance_of_entry [OF dk that] v by simp
  have vals: "(\<Sum>x\<leftarrow>b. value_of (snd x)) = (\<Sum>p\<leftarrow>ps. value_of (accumulated es p))"
  proof -
    have "map (\<lambda>x. value_of (snd x)) b = map value_of (map snd b)" by simp
    also have "map snd b = map (balance_of b) (map fst b)" using dk by (rule values_by_key)
    finally show ?thesis using keys v by (simp add: comp_def)
  qed
  have "conserved b"
  proof (cases "es = []")
    case True
    then have "accumulated es p = Finite 0" for p by (simp add: accumulated_def)
    with entry vals show ?thesis by (simp add: conserved_def)
  next
    case False
    then obtain e where e: "e \<in> set es" by (cases es) auto
    from am e have "\<bar>value_of (amount e)\<bar> \<le> A" by (simp add: amounts_within_def es_def)
    then have A0: "0 \<le> A" by linarith
    from known e have "paid_by e \<noteq> []" "set (paid_by e) \<subseteq> set ps"
      by (simp_all add: names_known_def es_def ps_def)
    then have "ps \<noteq> []" by auto
    then have n1: "1 \<le> real (length ps)" by (cases ps) simp_all
    define X where "X = real (length es) * ((real (length es) + 2) * (A + 1))"
    have X0: "0 \<le> X" using A0 by (simp add: X_def)
    have nX: "real (length ps) * X \<le> 5 * 10 ^ 12"
      using size by (simp add: X_def ps_def es_def mult.assoc)
    have "1 * X \<le> real (length ps) * X" using n1 X0 by (intro mult_right_mono) simp_all
    with nX have size': "real (length es) * ((real (length es) + 2) * (A + 1)) \<le> 5 * 10 ^ 12"
      by (simp add: X_def)
    have all: "\<forall>e\<in>set es. is_finite (amount e) \<and> \<bar>value_of (amount e)\<bar> \<le> A
        \<and> paid_by e \<noteq> [] \<and> split_among e \<noteq> []"
      using am known by (simp add: amounts_within_def names_known_def es_def)
    define d where "d = real (length es) * (16 * ((real (length es) + 2) * (A + 1)) / 2 ^ 53)"
    define f where "f = (\<lambda>p. value_of (accumulated es p))"
    define g where "g = (\<lambda>p. \<Sum>e\<leftarrow>es. net_share e p)"
    have each: "is_finite (accumulated es p) \<and> \<bar>f p - g p\<bar> \<le> d" for p
      using accumulated_error [OF all A0 size', of p] by (auto simp: f_def g_def d_def)
    have fin: "\<forall>x\<in>set b. is_finite (snd x)" using entry each by simp
    have zero: "(\<Sum>p\<leftarrow>ps. g p) = 0"
      unfolding g_def using dps
    proof (rule net_share_sum_zero)
      show "\<forall>e\<in>set es. distinct (paid_by e) \<and> distinct (split_among e)
          \<and> set (paid_by e) \<subseteq> set ps \<and> set (split_among e) \<subseteq> set ps
          \<and> paid_by e \<noteq> [] \<and> split_among e \<noteq> []"
        using known dup by (simp add: names_known_def duplicate_free_def es_def ps_def)
    qed
    have "(\<Sum>p\<leftarrow>ps. f p) = (\<Sum>p\<leftarrow>ps. f p - g p) + (\<Sum>p\<leftarrow>ps. g p)"
      by (simp add: sum_list_subtractf)
    then have "\<bar>\<Sum>p\<leftarrow>ps. f p\<bar> = \<bar>\<Sum>p\<leftarrow>ps. f p - g p\<bar>" using zero by simp
    also have "\<dots> \<le> real (length ps) * d"
      using each by (intro sum_list_abs_bound) simp
    also have "real (length ps) * d = 16 * (real (length ps) * X) / 2 ^ 53"
      by (simp add: d_def X_def)
    also have "\<dots> \<le> 1 / 100"
    proof -
      define Y where "Y = real (length ps) * X"
      from nX have "Y \<le> 5 * 10 ^ 12" by (simp add: Y_def)
      then have "16 * Y / 2 ^ 53 \<le> 1 / 100" by simp
      then show ?thesis by (simp only: Y_def)
    qed
    finally show ?thesis using fin vals by (simp add: conserved_def f_def)
  qed
  with r keys show ?thesis by (simp add: ps_def)
qed

theorem balances_conserved_witness:
  "names_known scenario_a \<and> duplicate_free scenario_a \<and> amounts_within 100 scenario_a
   \<and> length (participants scenario_a) = 2 \<and> length (expenses scenario_a) = 1
   \<and> (\<exists>b. calculate_balances scenario_a = Inr b \<and> map fst b = [''Alice'', ''Bob'']
        \<and> conserved b)"
proof -
  have k: "names_known scenario_a" by (simp add: names_known_def scenario_a_eq)
  have d: "duplicate_free scenario_a" by (simp add: duplicate_free_def scenario_a_eq)
  have a: "amounts_within 100 scenario_a" by (simp add: amounts_within_def scenario_a_eq)
  have s: "real (length (participants scenario_a)) * real (length (expenses scenario_a))
        * (real (length (expenses scenario_a)) + 2) * (100 + 1) \<le> 5 * 10 ^ 12"
    by (simp add: scenario_a_eq)
  from balances_conserved [OF k d a s] k d a show ?thesis by (simp add: scenario_a_eq)
qed

end
